theory Spec2Isabelle
  imports Main "HOL-Library.Word"
begin

section \<open>Lease-based leader election over the leader\_election table\<close>

text \<open>
  The development follows \<^verbatim>\<open>src/store/postgresql/config_file_template.go\<close> (the part that
  declares \<^verbatim>\<open>adminStore\<close>, \<^verbatim>\<open>leaderElectionStore\<close> and
  \<^verbatim>\<open>leaderElectionStateMachine\<close>) and \<^verbatim>\<open>src/store/postgresql/base_db.go\<close>
  (\<^verbatim>\<open>processWithTransaction\<close>).

  Go's \<^verbatim>\<open>int32\<close> and \<^verbatim>\<open>int64\<close> are \<open>32 word\<close> and \<open>64 word\<close>, compared as
  signed numbers. Time is counted in whole seconds since the epoch. Every statement the
  code sends to the database is a function on the table; every step of the driver that
  can return an error is a branch.
\<close>

subsection \<open>Constants\<close>

definition TickTime :: int where
  "TickTime = 2"

definition LeaseTime :: int where
  "LeaseTime = 10"

subsection \<open>Errors\<close>

text \<open>
  The steps of \<^verbatim>\<open>database/sql\<close> that the code checks for an error. Which of them
  fail is a parameter of the database state.
\<close>

datatype db_op =
    OpBegin | OpPrepare | OpExec | OpRowsAffected | OpCommit
  | OpQueryRow | OpQuery | OpScan | OpRowsErr

datatype error =
    DriverError db_op
  | ErrNoRows
  | ErrInFailedTransaction
  | DuplicateKey string
  | StoreError error
  | NotStarted string

text \<open>\<^verbatim>\<open>store.Error(err)\<close>: \<^verbatim>\<open>nil\<close> stays \<^verbatim>\<open>nil\<close>, an error is wrapped.\<close>

definition store_Error :: "error option \<Rightarrow> error option" where
  "store_Error err = map_option StoreError err"

subsection \<open>The table and the database\<close>

record leader_election_row =
  col_elect_key :: string
  col_leader :: string
  col_version :: "64 word"
  col_ctime :: int
  col_mtime :: int

record database =
  leader_election :: "leader_election_row list"
  clock :: int
  faults :: "db_op set"

text \<open>
  Modelled from the spec: the schema of table \<^verbatim>\<open>leader_election\<close> (its key and its
  column defaults) is not in the sources. The spec gives \<open>key\<close> as the unique identifier
  of a record and a new record \<open>version = 0\<close>; the two timestamps of a new row are the
  time of the insert. The statement is
  \<^verbatim>\<open>INSERT INTO leader_election(elect_key,leader) VALUES ($1,$2)\<close>.
\<close>

definition sql_insert :: "string \<Rightarrow> string \<Rightarrow> database \<Rightarrow> error + leader_election_row list" where
  "sql_insert key ldr db =
     (if \<exists>r \<in> set (leader_election db). col_elect_key r = key then Inl (DuplicateKey key)
      else Inr (leader_election db @
        [\<lparr>col_elect_key = key, col_leader = ldr, col_version = 0,
          col_ctime = clock db, col_mtime = clock db\<rparr>]))"

text \<open>
  \<^verbatim>\<open>update leader_election set leader = $1, version = $2 where elect_key = $3 and version = $4\<close>:
  the new table and the number of rows the statement matched. The statement assigns the
  columns \<^verbatim>\<open>leader\<close> and \<^verbatim>\<open>version\<close> and no other.
\<close>

definition cas_matches :: "string \<Rightarrow> 64 word \<Rightarrow> leader_election_row \<Rightarrow> bool" where
  "cas_matches key curVersion r \<longleftrightarrow> col_elect_key r = key \<and> col_version r = curVersion"

definition sql_update_cas ::
  "string \<Rightarrow> 64 word \<Rightarrow> string \<Rightarrow> 64 word \<Rightarrow> leader_election_row list
    \<Rightarrow> leader_election_row list \<times> nat" where
  "sql_update_cas ldr newVersion key curVersion tbl =
     (map (\<lambda>r. if cas_matches key curVersion r
                then r\<lparr>col_leader := ldr, col_version := newVersion\<rparr> else r) tbl,
      length (filter (cas_matches key curVersion) tbl))"

text \<open>\<^verbatim>\<open>select ... from leader_election where elect_key = $1\<close>\<close>

definition sql_select_key :: "string \<Rightarrow> leader_election_row list \<Rightarrow> leader_election_row list" where
  "sql_select_key key tbl = filter (\<lambda>r. col_elect_key r = key) tbl"

subsection \<open>leaderElectionStore\<close>

text \<open>
  \<^verbatim>\<open>CreateLeaderElection\<close>, inside \<^verbatim>\<open>processWithTransaction\<close>: an error of
  \<^verbatim>\<open>Begin\<close>, \<^verbatim>\<open>Prepare\<close> or \<^verbatim>\<open>Commit\<close> is returned; an error of \<^verbatim>\<open>Exec\<close>
  is logged and \<^verbatim>\<open>tx.Commit()\<close> is called all the same. A transaction that is not
  committed is rolled back by the deferred \<^verbatim>\<open>tx.Rollback()\<close>. \<^verbatim>\<open>BaseDB.Begin\<close>
  retries on some errors; \<open>OpBegin\<close> stands for the error it returns in the end.

  The package imports the driver \<^verbatim>\<open>github.com/lib/pq\<close>. On PostgreSQL a statement that
  fails inside a transaction aborts the transaction, and the driver's \<^verbatim>\<open>Commit\<close> of an
  aborted transaction rolls it back and returns \<^verbatim>\<open>ErrInFailedTransaction\<close>. So the
  commit after a failed \<^verbatim>\<open>Exec\<close> returns that error, whatever made the insert fail.
\<close>

definition CreateLeaderElection :: "string \<Rightarrow> database \<Rightarrow> error option \<times> database" where
  "CreateLeaderElection key db =
     (if OpBegin \<in> faults db then (Some (DriverError OpBegin), db)
      else if OpPrepare \<in> faults db then (Some (DriverError OpPrepare), db)
      else
        let inserted = (if OpExec \<in> faults db then Inl (DriverError OpExec)
                        else sql_insert key [] db)
        in case inserted of
             Inl e \<Rightarrow> (Some ErrInFailedTransaction, db)
           | Inr tbl \<Rightarrow>
               if OpCommit \<in> faults db then (Some (DriverError OpCommit), db)
               else (None, db\<lparr>leader_election := tbl\<rparr>))"

text \<open>\<^verbatim>\<open>GetVersion\<close>: \<^verbatim>\<open>QueryRow(...).Scan(&count)\<close>; \<^verbatim>\<open>count\<close> stays 0 on an error.\<close>

definition GetVersion :: "string \<Rightarrow> database \<Rightarrow> (64 word \<times> error option) \<times> database" where
  "GetVersion key db =
     (if OpQueryRow \<in> faults db then ((0, store_Error (Some (DriverError OpQueryRow))), db)
      else case sql_select_key key (leader_election db) of
             [] \<Rightarrow> ((0, store_Error (Some ErrNoRows)), db)
           | r # _ \<Rightarrow> ((col_version r, store_Error None), db))"

text \<open>
  \<^verbatim>\<open>CompareAndSwapVersion\<close>: \<^verbatim>\<open>rows\<close> is assigned only after a successful commit,
  and the result is \<^verbatim>\<open>rows > 0\<close> with the error of the transaction.
\<close>

definition CompareAndSwapVersion ::
  "string \<Rightarrow> 64 word \<Rightarrow> 64 word \<Rightarrow> string \<Rightarrow> database \<Rightarrow> (bool \<times> error option) \<times> database" where
  "CompareAndSwapVersion key curVersion newVersion ldr db =
     (if OpBegin \<in> faults db then ((False, Some (DriverError OpBegin)), db)
      else if OpPrepare \<in> faults db then ((False, store_Error (Some (DriverError OpPrepare))), db)
      else if OpExec \<in> faults db then ((False, store_Error (Some (DriverError OpExec))), db)
      else
        let (tbl, tRows) = sql_update_cas ldr newVersion key curVersion (leader_election db)
        in if OpRowsAffected \<in> faults db
           then ((False, store_Error (Some (DriverError OpRowsAffected))), db)
           else if OpCommit \<in> faults db then ((False, Some (DriverError OpCommit)), db)
           else ((tRows > 0, None), db\<lparr>leader_election := tbl\<rparr>))"

text \<open>
  Modelled from the spec: \<^verbatim>\<open>CurrDiffTimeSecond\<close> is called by
  \<^verbatim>\<open>CheckMtimeExpired\<close> and is not in the sources. The spec gives the difference as
  \<open>now - modified_at\<close>; here in whole seconds.
\<close>

definition CurrDiffTimeSecond :: "int \<Rightarrow> int \<Rightarrow> int" where
  "CurrDiffTimeSecond now mtime = now - mtime"

text \<open>The zero value of \<^verbatim>\<open>time.Time\<close> (1 January of year 1, UTC) in epoch seconds.\<close>

definition zeroTime :: int where
  "zeroTime = - 62135596800"

text \<open>
  \<^verbatim>\<open>CheckMtimeExpired\<close>: when the query fails, \<^verbatim>\<open>leader\<close> and \<^verbatim>\<open>mtime\<close> keep
  their zero values and the comparison is still computed. \<^verbatim>\<open>int32(diffTime)\<close> is
  the conversion to 32 bits.
\<close>

definition CheckMtimeExpired ::
  "string \<Rightarrow> 32 word \<Rightarrow> database \<Rightarrow> (string \<times> bool \<times> error option) \<times> database" where
  "CheckMtimeExpired key leaseTime db =
     (let (ldr, mtime, err) =
            (if OpQueryRow \<in> faults db then ([], zeroTime, Some (DriverError OpQueryRow))
             else case sql_select_key key (leader_election db) of
                    [] \<Rightarrow> ([], zeroTime, Some ErrNoRows)
                  | r # _ \<Rightarrow> (col_leader r, col_mtime r, None));
          diffTime = CurrDiffTimeSecond (clock db) mtime
      in ((ldr, leaseTime <s (word_of_int diffTime :: 32 word), store_Error err), db))"

text \<open>\<^verbatim>\<open>model.LeaderElection\<close>, with the fields the code assigns.\<close>

record LeaderElection =
  ElectKey :: string
  Host :: string
  Ctime :: "64 word"
  Mtime :: "64 word"
  CreateTime :: int
  ModifyTime :: int
  Valid :: bool

text \<open>\<^verbatim>\<open>checkLeaderValid\<close>; the first argument is \<^verbatim>\<open>time.Now().Unix()\<close>.\<close>

definition checkLeaderValid :: "64 word \<Rightarrow> 64 word \<Rightarrow> bool" where
  "checkLeaderValid now mtime = (let delta = now - mtime in delta \<le>s word_of_int LeaseTime)"

text \<open>
  One pass of the loop of \<^verbatim>\<open>fetchLeaderElectionRows\<close>: the record \<^verbatim>\<open>space\<close> built
  from a scanned row. The query casts both timestamps to epoch seconds.
\<close>

definition scan_space :: "database \<Rightarrow> leader_election_row \<Rightarrow> LeaderElection" where
  "scan_space db r =
     (let space = \<lparr>ElectKey = col_elect_key r, Host = col_leader r,
                   Ctime = word_of_int (col_ctime r), Mtime = word_of_int (col_mtime r),
                   CreateTime = 0, ModifyTime = 0, Valid = False\<rparr>;
          space = space\<lparr>CreateTime := sint (Ctime space)\<rparr>;
          space = space\<lparr>ModifyTime := sint (Mtime space)\<rparr>;
          space = space\<lparr>Valid := checkLeaderValid (word_of_int (clock db)) (Mtime space)\<rparr>
      in space)"

text \<open>
  The loop over the rows of the query, with \<^verbatim>\<open>out\<close> as accumulator; a failing
  \<^verbatim>\<open>Scan\<close> returns \<^verbatim>\<open>nil\<close> and the error.
\<close>

fun fetch_loop ::
  "database \<Rightarrow> leader_election_row list \<Rightarrow> LeaderElection list \<Rightarrow> LeaderElection list \<times> error option" where
  "fetch_loop db [] out =
     (if OpRowsErr \<in> faults db then ([], Some (DriverError OpRowsErr)) else (out, None))"
| "fetch_loop db (r # rows) out =
     (if OpScan \<in> faults db then ([], Some (DriverError OpScan))
      else fetch_loop db rows (out @ [scan_space db r]))"

definition fetchLeaderElectionRows ::
  "database \<Rightarrow> leader_election_row list option \<Rightarrow> LeaderElection list \<times> error option" where
  "fetchLeaderElectionRows db rows =
     (case rows of None \<Rightarrow> ([], None) | Some rs \<Rightarrow> fetch_loop db rs [])"

definition ListLeaderElections :: "database \<Rightarrow> (LeaderElection list \<times> error option) \<times> database" where
  "ListLeaderElections db =
     (if OpQuery \<in> faults db then (([], store_Error (Some (DriverError OpQuery))), db)
      else (fetchLeaderElectionRows db (Some (leader_election db)), db))"

subsection \<open>The LeaderElectionStore interface\<close>

text \<open>
  The state machine reaches the store through the interface \<^verbatim>\<open>LeaderElectionStore\<close>
  only. An implementation is a record of functions on a store state \<open>'s\<close>, each
  returning its results and the next store state.
\<close>

record 's LeaderElectionStore =
  store_CreateLeaderElection :: "string \<Rightarrow> 's \<Rightarrow> error option \<times> 's"
  store_GetVersion :: "string \<Rightarrow> 's \<Rightarrow> (64 word \<times> error option) \<times> 's"
  store_CompareAndSwapVersion ::
    "string \<Rightarrow> 64 word \<Rightarrow> 64 word \<Rightarrow> string \<Rightarrow> 's \<Rightarrow> (bool \<times> error option) \<times> 's"
  store_CheckMtimeExpired :: "string \<Rightarrow> 32 word \<Rightarrow> 's \<Rightarrow> (string \<times> bool \<times> error option) \<times> 's"
  store_ListLeaderElections :: "'s \<Rightarrow> (LeaderElection list \<times> error option) \<times> 's"

text \<open>\<^verbatim>\<open>&leaderElectionStore{master: master}\<close>, the implementation on the database.\<close>

definition leaderElectionStore :: "database LeaderElectionStore" where
  "leaderElectionStore =
     \<lparr>store_CreateLeaderElection = CreateLeaderElection,
      store_GetVersion = GetVersion,
      store_CompareAndSwapVersion = CompareAndSwapVersion,
      store_CheckMtimeExpired = CheckMtimeExpired,
      store_ListLeaderElections = ListLeaderElections\<rparr>"

subsection \<open>The state machine\<close>

text \<open>
  What a state machine acts on besides its own fields: the state of the store, the calls
  it has made on the store (in order) and the events it has handed to
  \<^verbatim>\<open>eventhub.Publish\<close> (in order).
\<close>

datatype store_call =
    CallGetVersion string
  | CallCompareAndSwapVersion string "64 word" "64 word" string
  | CallCheckMtimeExpired string "32 word"
  | CallCreateLeaderElection string

record LeaderChangeEvent =
  Key :: string
  Leader :: bool
  LeaderHost :: string

record 's world =
  store :: 's
  calls :: "store_call list"
  published :: "LeaderChangeEvent list"

text \<open>
  \<^verbatim>\<open>leaderElectionStateMachine\<close>. The field \<^verbatim>\<open>leStore\<close> is the parameter \<open>S\<close> of
  the functions below, \<^verbatim>\<open>utils.LocalHost\<close> the parameter \<open>LocalHost\<close>; the context
  \<^verbatim>\<open>ctx\<close> is read by \<^verbatim>\<open>mainLoop\<close> alone and is its input there.
\<close>

record leaderElectionStateMachine =
  electKey :: string
  leaderFlag :: "32 word"
  version :: "64 word"
  releaseSignal :: "32 word"
  releaseTickLimit :: "32 word"
  leader :: string

type_synonym 's config = "leaderElectionStateMachine \<times> 's world"

definition isLeader :: "32 word \<Rightarrow> bool" where
  "isLeader flag \<longleftrightarrow> 0 <s flag"

text \<open>\<^verbatim>\<open>atomic.CompareAndSwapInt32(&le.releaseSignal, 1, 0)\<close>\<close>

definition checkAndClearReleaseSignal ::
  "leaderElectionStateMachine \<Rightarrow> bool \<times> leaderElectionStateMachine" where
  "checkAndClearReleaseSignal le =
     (if releaseSignal le = 1 then (True, le\<lparr>releaseSignal := 0\<rparr>) else (False, le))"

definition checkReleaseTickLimit ::
  "leaderElectionStateMachine \<Rightarrow> bool \<times> leaderElectionStateMachine" where
  "checkReleaseTickLimit le =
     (if 0 <s releaseTickLimit le
      then (True, le\<lparr>releaseTickLimit := releaseTickLimit le - 1\<rparr>)
      else (False, le))"

definition setReleaseTickLimit :: "leaderElectionStateMachine \<Rightarrow> leaderElectionStateMachine" where
  "setReleaseTickLimit le = le\<lparr>releaseTickLimit := word_of_int (LeaseTime div TickTime * 3)\<rparr>"

definition publishLeaderChangeEvent :: "'s config \<Rightarrow> 's config" where
  "publishLeaderChangeEvent c =
     (case c of (le, w) \<Rightarrow>
        (le, w\<lparr>published := published w @
           [\<lparr>Key = electKey le, Leader = isLeader (leaderFlag le), LeaderHost = leader le\<rparr>]\<rparr>))"

definition changeToLeader :: "string \<Rightarrow> 's config \<Rightarrow> 's config" where
  "changeToLeader LocalHost c =
     (case c of (le, w) \<Rightarrow>
        publishLeaderChangeEvent (le\<lparr>leaderFlag := 1, leader := LocalHost\<rparr>, w))"

definition changeToFollower :: "string \<Rightarrow> 's config \<Rightarrow> 's config" where
  "changeToFollower ldr c =
     (case c of (le, w) \<Rightarrow>
        publishLeaderChangeEvent (le\<lparr>leaderFlag := 0, leader := ldr\<rparr>, w))"

definition checkLeaderDead ::
  "'s LeaderElectionStore \<Rightarrow> 's config \<Rightarrow> (string \<times> bool \<times> error option) \<times> 's config" where
  "checkLeaderDead S c =
     (case c of (le, w) \<Rightarrow>
        let (r, s') = store_CheckMtimeExpired S (electKey le) (word_of_int LeaseTime) (store w)
        in (r, (le, w\<lparr>store := s',
                      calls := calls w @ [CallCheckMtimeExpired (electKey le) (word_of_int LeaseTime)]\<rparr>)))"

definition elect ::
  "'s LeaderElectionStore \<Rightarrow> string \<Rightarrow> 's config \<Rightarrow> (bool \<times> error option) \<times> 's config" where
  "elect S LocalHost c =
     (case c of (le, w) \<Rightarrow>
        let ((curVersion, err), s1) = store_GetVersion S (electKey le) (store w);
            w1 = w\<lparr>store := s1, calls := calls w @ [CallGetVersion (electKey le)]\<rparr>
        in if err \<noteq> None then ((False, err), (le, w1))
           else
             let le' = le\<lparr>version := curVersion + 1\<rparr>;
                 (r, s2) = store_CompareAndSwapVersion S (electKey le') curVersion (version le')
                             LocalHost s1
             in (r, (le', w1\<lparr>store := s2,
                          calls := calls w1 @
                            [CallCompareAndSwapVersion (electKey le') curVersion (version le')
                               LocalHost]\<rparr>)))"

definition heartbeat ::
  "'s LeaderElectionStore \<Rightarrow> string \<Rightarrow> 's config \<Rightarrow> (bool \<times> error option) \<times> 's config" where
  "heartbeat S LocalHost c =
     (case c of (le, w) \<Rightarrow>
        let curVersion = version le;
            le' = le\<lparr>version := curVersion + 1\<rparr>;
            (r, s') = store_CompareAndSwapVersion S (electKey le') curVersion (version le')
                        LocalHost (store w)
        in (r, (le', w\<lparr>store := s',
                       calls := calls w @
                         [CallCompareAndSwapVersion (electKey le') curVersion (version le')
                            LocalHost]\<rparr>)))"

text \<open>
  The second half of \<^verbatim>\<open>tick\<close>, from the call of \<^verbatim>\<open>checkLeaderDead\<close> on: reached by
  a follower, and by a leader whose heartbeat did not apply or returned an error.
\<close>

definition tick_checkLeaderDead :: "'s LeaderElectionStore \<Rightarrow> string \<Rightarrow> 's config \<Rightarrow> 's config" where
  "tick_checkLeaderDead S LocalHost c =
     (let ((ldr, dead, err), c1) = checkLeaderDead S c
      in if err \<noteq> None then c1
         else if \<not> dead then
           (let c2 = (if ldr = LocalHost then changeToLeader LocalHost c1 else c1);
                c3 = (if leader (fst c2) \<noteq> ldr then changeToFollower ldr c2 else c2)
            in c3)
         else
           (let ((success, err), c2) = elect S LocalHost c1
            in if err \<noteq> None then c2
               else if success then changeToLeader LocalHost c2
               else c2))"

definition tick :: "'s LeaderElectionStore \<Rightarrow> string \<Rightarrow> 's config \<Rightarrow> 's config" where
  "tick S LocalHost c =
     (case c of (le, w) \<Rightarrow>
        let (abandon, le1) = checkReleaseTickLimit le
        in if abandon then (le1, w)
           else
             let (shouldRelease, le2) = checkAndClearReleaseSignal le1
             in if isLeader (leaderFlag le2) then
                  (if shouldRelease then
                     (let (le3, w3) = changeToFollower [] (le2, w)
                      in (setReleaseTickLimit le3, w3))
                   else
                     let ((success, err), c1) = heartbeat S LocalHost (le2, w)
                     in if err = None \<and> success then c1
                        else tick_checkLeaderDead S LocalHost c1)
                else tick_checkLeaderDead S LocalHost (le2, w))"

text \<open>
  \<^verbatim>\<open>mainLoop\<close>: the \<^verbatim>\<open>select\<close> of the loop receives either a tick of the ticker or
  the cancellation of the context. The loop is run on the list of what it receives; the
  boolean says whether \<^verbatim>\<open>mainLoop\<close> has returned.
\<close>

datatype loop_signal = TickerC | CtxDone

fun mainLoop_select ::
  "'s LeaderElectionStore \<Rightarrow> string \<Rightarrow> loop_signal list \<Rightarrow> 's config \<Rightarrow> 's config \<times> bool" where
  "mainLoop_select S LocalHost [] c = (c, False)"
| "mainLoop_select S LocalHost (TickerC # sigs) c = mainLoop_select S LocalHost sigs (tick S LocalHost c)"
| "mainLoop_select S LocalHost (CtxDone # sigs) c = (changeToFollower [] c, True)"

definition mainLoop ::
  "'s LeaderElectionStore \<Rightarrow> string \<Rightarrow> loop_signal list \<Rightarrow> 's config \<Rightarrow> 's config \<times> bool" where
  "mainLoop S LocalHost sigs c = mainLoop_select S LocalHost sigs (changeToFollower [] c)"

subsection \<open>adminStore\<close>

text \<open>
  The registry \<^verbatim>\<open>leMap\<close> of the state machines started in this process. The mutex
  makes each operation atomic; an operation is a function on the registry.
\<close>

record adminStore =
  leMap :: "string \<rightharpoonup> leaderElectionStateMachine"

definition isLeaderAtomic :: "leaderElectionStateMachine \<Rightarrow> bool" where
  "isLeaderAtomic le = isLeader (leaderFlag le)"

definition setReleaseSignal :: "leaderElectionStateMachine \<Rightarrow> leaderElectionStateMachine" where
  "setReleaseSignal le = le\<lparr>releaseSignal := 1\<rparr>"

text \<open>
  \<^verbatim>\<open>StartLeaderElection\<close>, up to the start of the goroutine that runs
  \<^verbatim>\<open>mainLoop\<close> on the new state machine.
\<close>

definition StartLeaderElection ::
  "'s LeaderElectionStore \<Rightarrow> string \<Rightarrow> adminStore \<times> 's world \<Rightarrow> error option \<times> adminStore \<times> 's world" where
  "StartLeaderElection S key mw =
     (case mw of (m, w) \<Rightarrow>
        (case leMap m key of
           Some le \<Rightarrow> (None, m, w)
         | None \<Rightarrow>
             let le = \<lparr>electKey = key, leaderFlag = 0, version = 0, releaseSignal = 0,
                       releaseTickLimit = 0, leader = []\<rparr>;
                 (err, s') = store_CreateLeaderElection S key (store w);
                 w' = w\<lparr>store := s', calls := calls w @ [CallCreateLeaderElection key]\<rparr>
             in if err \<noteq> None then (store_Error err, m, w')
                else (None, m\<lparr>leMap := (leMap m)(key \<mapsto> le)\<rparr>, w')))"

definition StopLeaderElections :: "adminStore \<Rightarrow> adminStore" where
  "StopLeaderElections m = m\<lparr>leMap := Map.empty\<rparr>"

definition IsLeader :: "adminStore \<Rightarrow> string \<Rightarrow> bool" where
  "IsLeader m key = (case leMap m key of None \<Rightarrow> False | Some le \<Rightarrow> isLeaderAtomic le)"

definition ReleaseLeaderElection :: "adminStore \<Rightarrow> string \<Rightarrow> error option \<times> adminStore" where
  "ReleaseLeaderElection m key =
     (case leMap m key of
        None \<Rightarrow> (Some (NotStarted key), m)
      | Some le \<Rightarrow> (None, m\<lparr>leMap := (leMap m)(key \<mapsto> setReleaseSignal le)\<rparr>))"

subsection \<open>What one tick adds\<close>

text \<open>
  The calls on the store and the events that a tick appends to those already recorded.
\<close>

definition tick_calls :: "'s LeaderElectionStore \<Rightarrow> string \<Rightarrow> 's config \<Rightarrow> store_call list" where
  "tick_calls S LocalHost c = drop (length (calls (snd c))) (calls (snd (tick S LocalHost c)))"

definition tick_events ::
  "'s LeaderElectionStore \<Rightarrow> string \<Rightarrow> 's config \<Rightarrow> LeaderChangeEvent list" where
  "tick_events S LocalHost c =
     drop (length (published (snd c))) (published (snd (tick S LocalHost c)))"

text \<open>The new versions of the swaps among a list of calls, in the order of the calls.\<close>

fun cas_versions :: "store_call list \<Rightarrow> 64 word list" where
  "cas_versions [] = []"
| "cas_versions (CallCompareAndSwapVersion k cur new l # cs) = new # cas_versions cs"
| "cas_versions (c # cs) = cas_versions cs"

text \<open>
  A tick in which the state machine is leader, is neither cooling down nor asked to
  release, and its heartbeat is applied without error.
\<close>

definition heartbeat_applies :: "'s LeaderElectionStore \<Rightarrow> string \<Rightarrow> 's config \<Rightarrow> bool" where
  "heartbeat_applies S LocalHost c \<longleftrightarrow>
     \<not> 0 <s releaseTickLimit (fst c) \<and> isLeader (leaderFlag (fst c)) \<and> releaseSignal (fst c) \<noteq> 1
     \<and> fst (heartbeat S LocalHost c) = (True, None)"

text \<open>The lease check of \<^verbatim>\<open>checkLeaderDead\<close> returns an error in store state \<open>s\<close>.\<close>

definition check_fails :: "'s LeaderElectionStore \<Rightarrow> string \<Rightarrow> 's \<Rightarrow> bool" where
  "check_fails S key s \<longleftrightarrow>
     snd (snd (fst (store_CheckMtimeExpired S key (word_of_int LeaseTime) s))) \<noteq> None"

text \<open>
  The second half of a tick confirms this host as leader: the lease check returns no
  error and either finds the lease alive and held by this host, or finds it expired and
  the election that follows is applied without error.
\<close>

definition confirmed_again :: "'s LeaderElectionStore \<Rightarrow> string \<Rightarrow> 's config \<Rightarrow> bool" where
  "confirmed_again S LocalHost c \<longleftrightarrow>
     snd (snd (fst (checkLeaderDead S c))) = None
     \<and> (if fst (snd (fst (checkLeaderDead S c)))
         then fst (elect S LocalHost (snd (checkLeaderDead S c))) = (True, None)
         else fst (fst (checkLeaderDead S c)) = LocalHost)"

subsection \<open>States used in the examples\<close>

text \<open>An empty table at time 100.\<close>

definition db_empty :: database where
  "db_empty = \<lparr>leader_election = [], clock = 100, faults = {}\<rparr>"

text \<open>At time 200, the record of key \<open>k\<close> held by host \<open>B\<close> at version 3, written at time 100.\<close>

definition db_held :: database where
  "db_held =
     \<lparr>leader_election =
        [\<lparr>col_elect_key = ''k'', col_leader = ''B'', col_version = 3,
          col_ctime = 100, col_mtime = 100\<rparr>],
      clock = 200, faults = {}\<rparr>"

text \<open>At time 200, one record written 10 seconds ago and one written 11 seconds ago.\<close>

definition db_two :: database where
  "db_two =
     \<lparr>leader_election =
        [\<lparr>col_elect_key = ''k'', col_leader = ''B'', col_version = 3,
          col_ctime = 100, col_mtime = 190\<rparr>,
         \<lparr>col_elect_key = ''j'', col_leader = ''C'', col_version = 7,
          col_ctime = 100, col_mtime = 189\<rparr>],
      clock = 200, faults = {}\<rparr>"

text \<open>The record of \<open>k\<close> held by host \<open>A\<close> at version 3, five seconds old.\<close>

definition db_led :: database where
  "db_led =
     \<lparr>leader_election =
        [\<lparr>col_elect_key = ''k'', col_leader = ''A'', col_version = 3,
          col_ctime = 100, col_mtime = 100\<rparr>],
      clock = 105, faults = {}\<rparr>"

text \<open>The record of \<open>k\<close> taken over by host \<open>B\<close>, at version 9, two seconds old.\<close>

definition db_taken :: database where
  "db_taken =
     \<lparr>leader_election =
        [\<lparr>col_elect_key = ''k'', col_leader = ''B'', col_version = 9,
          col_ctime = 100, col_mtime = 198\<rparr>],
      clock = 200, faults = {}\<rparr>"

text \<open>A fresh record of \<open>k\<close> with no leader, 11 seconds old: its lease has expired.\<close>

definition db_expired :: database where
  "db_expired =
     \<lparr>leader_election =
        [\<lparr>col_elect_key = ''k'', col_leader = [], col_version = 0,
          col_ctime = 100, col_mtime = 100\<rparr>],
      clock = 111, faults = {}\<rparr>"

text \<open>
  The database of \<open>db_led\<close> when it cannot be reached (transactions and queries fail),
  and when only transactions fail.
\<close>

definition db_down :: database where
  "db_down = db_led\<lparr>faults := {OpBegin, OpQueryRow}\<rparr>"

definition db_glitch :: database where
  "db_glitch = db_led\<lparr>faults := {OpBegin}\<rparr>"

definition world_of :: "'s \<Rightarrow> 's world" where
  "world_of s = \<lparr>store = s, calls = [], published = []\<rparr>"

text \<open>The state machine as \<^verbatim>\<open>StartLeaderElection\<close> builds it, for key \<open>k\<close>.\<close>

definition le_follower :: leaderElectionStateMachine where
  "le_follower = \<lparr>electKey = ''k'', leaderFlag = 0, version = 0, releaseSignal = 0,
     releaseTickLimit = 0, leader = []\<rparr>"

text \<open>The state machine of host \<open>A\<close> as leader at version 3.\<close>

definition le_leader :: leaderElectionStateMachine where
  "le_leader = \<lparr>electKey = ''k'', leaderFlag = 1, version = 3, releaseSignal = 0,
     releaseTickLimit = 0, leader = ''A''\<rparr>"

text \<open>A follower with three ticks of cooldown left.\<close>

definition le_cooling :: leaderElectionStateMachine where
  "le_cooling = \<lparr>electKey = ''k'', leaderFlag = 0, version = 3, releaseSignal = 0,
     releaseTickLimit = 3, leader = []\<rparr>"

definition admin_k :: adminStore where
  "admin_k = \<lparr>leMap = [''k'' \<mapsto> le_leader]\<rparr>"

section \<open>Properties of the store\<close>

subsection \<open>The conditional update\<close>

lemma sql_update_cas_no_match:
  "\<forall>r \<in> set tbl. \<not> cas_matches key cur r \<Longrightarrow> sql_update_cas ldr new key cur tbl = (tbl, 0)"
  by (induction tbl) (auto simp: sql_update_cas_def)

lemma sql_update_cas_match:
  "r \<in> set tbl \<Longrightarrow> cas_matches key cur r \<Longrightarrow> 0 < snd (sql_update_cas ldr new key cur tbl)"
  by (auto simp: sql_update_cas_def filter_empty_conv)

lemma sql_update_cas_mtime:
  "map col_mtime (fst (sql_update_cas ldr new key cur tbl)) = map col_mtime tbl"
  by (simp add: sql_update_cas_def)

text \<open>When a record of the key stands at the expected version and no step fails, the swap applies.\<close>

lemma CompareAndSwapVersion_applies:
  assumes "faults db \<inter> {OpBegin, OpPrepare, OpExec, OpRowsAffected, OpCommit} = {}"
    and "r \<in> set (leader_election db)" and "col_elect_key r = key" and "col_version r = cur"
  shows "CompareAndSwapVersion key cur new ldr db =
           ((True, None),
            db\<lparr>leader_election := fst (sql_update_cas ldr new key cur (leader_election db))\<rparr>)"
proof -
  have "0 < snd (sql_update_cas ldr new key cur (leader_election db))"
    using assms(2-4) by (intro sql_update_cas_match[of r]) (simp_all add: cas_matches_def)
  then show ?thesis
    using assms(1) by (cases "sql_update_cas ldr new key cur (leader_election db)")
      (simp add: CompareAndSwapVersion_def)
qed

text \<open>Whatever its outcome, the swap leaves the column \<^verbatim>\<open>mtime\<close> of every row as it was.\<close>

lemma CompareAndSwapVersion_mtime:
  "map col_mtime (leader_election (snd (CompareAndSwapVersion key cur new ldr db)))
     = map col_mtime (leader_election db)"
  using sql_update_cas_mtime[of ldr new key cur "leader_election db"]
  by (auto simp: CompareAndSwapVersion_def split: prod.splits)

text \<open>
  C1. \<^verbatim>\<open>CompareAndSwapVersion\<close> changes the stored leader and version only if the
  stored version equals the expected one: when no record of the key stands at
  \<open>curVersion\<close>, the database is left as it was and the call returns
  \<open>applied = false\<close>; the error is \<^verbatim>\<open>nil\<close> unless a step of the transaction itself
  (begin, prepare, exec, rows-affected, commit) fails.
\<close>

theorem CompareAndSwapVersion_version_guard:
  assumes "\<forall>r \<in> set (leader_election db). col_elect_key r = key \<longrightarrow> col_version r \<noteq> curVersion"
  shows "snd (CompareAndSwapVersion key curVersion newVersion ldr db) = db
       \<and> \<not> fst (fst (CompareAndSwapVersion key curVersion newVersion ldr db))
       \<and> (faults db \<inter> {OpBegin, OpPrepare, OpExec, OpRowsAffected, OpCommit} = {}
            \<longrightarrow> snd (fst (CompareAndSwapVersion key curVersion newVersion ldr db)) = None)"
proof -
  have "\<forall>r \<in> set (leader_election db). \<not> cas_matches key curVersion r"
    using assms by (simp add: cas_matches_def)
  then have "sql_update_cas ldr newVersion key curVersion (leader_election db)
               = (leader_election db, 0)"
    by (rule sql_update_cas_no_match)
  then show ?thesis
    by (simp add: CompareAndSwapVersion_def)
qed

theorem CompareAndSwapVersion_version_guard_witness:
  "CompareAndSwapVersion ''k'' 5 6 ''A'' db_held = ((False, None), db_held)"
  using CompareAndSwapVersion_version_guard[of db_held "''k''" 5 6 "''A''"]
  by (simp add: db_held_def prod_eq_iff)

text \<open>
  C2. An applied \<^verbatim>\<open>CompareAndSwapVersion\<close> does not rewrite the modification time:
  at time 200, the swap from version 3 to 4 on the record written at time 100 applies,
  and the record's \<^verbatim>\<open>mtime\<close> is still 100. A lease check made right after the
  applied swap, at the same time, reports the lease of the new leader expired.
\<close>

theorem CompareAndSwapVersion_keeps_mtime:
  "CompareAndSwapVersion ''k'' 3 4 ''A'' db_held =
     ((True, None),
      \<lparr>leader_election =
         [\<lparr>col_elect_key = ''k'', col_leader = ''A'', col_version = 4,
           col_ctime = 100, col_mtime = 100\<rparr>],
       clock = 200, faults = {}\<rparr>)
   \<and> fst (CheckMtimeExpired ''k'' 10 (snd (CompareAndSwapVersion ''k'' 3 4 ''A'' db_held)))
       = (''A'', True, None)"
  by (simp add: db_held_def CompareAndSwapVersion_def sql_update_cas_def cas_matches_def
      CheckMtimeExpired_def sql_select_key_def CurrDiffTimeSecond_def store_Error_def
      word_sless_alt)

subsection \<open>Creating the record\<close>

lemma CreateLeaderElection_creates:
  assumes "faults db \<inter> {OpBegin, OpPrepare, OpExec, OpCommit} = {}"
    and "\<not> (\<exists>r \<in> set (leader_election db). col_elect_key r = key)"
  shows "CreateLeaderElection key db =
     (None, db\<lparr>leader_election := leader_election db @
        [\<lparr>col_elect_key = key, col_leader = [], col_version = 0,
          col_ctime = clock db, col_mtime = clock db\<rparr>]\<rparr>)"
  using assms by (simp add: CreateLeaderElection_def sql_insert_def)

text \<open>A record that exists is never touched by a create, whichever steps fail.\<close>

lemma CreateLeaderElection_existing_unchanged:
  assumes "\<exists>r \<in> set (leader_election db). col_elect_key r = key"
  shows "snd (CreateLeaderElection key db) = db"
  using assms by (simp add: CreateLeaderElection_def sql_insert_def)

text \<open>
  On a key whose record exists the create returns an error in every case: the insert
  fails on the key, and the commit of the aborted transaction fails in its turn.
\<close>

lemma CreateLeaderElection_existing_fails:
  assumes "\<exists>r \<in> set (leader_election db). col_elect_key r = key"
  shows "fst (CreateLeaderElection key db) \<noteq> None"
  using assms by (simp add: CreateLeaderElection_def sql_insert_def)

text \<open>
  C6. \<^verbatim>\<open>CreateLeaderElection\<close> is not idempotent in what it returns. On the empty
  table the first call for key \<open>k\<close> creates the record and returns no error. The second
  call leaves the record as it was, but returns \<^verbatim>\<open>ErrInFailedTransaction\<close>: the
  duplicate insert is only logged, and the commit that follows it fails. So
  \<^verbatim>\<open>StartLeaderElection\<close> on a key whose record another process has created returns
  an error and registers no state machine.
\<close>

theorem CreateLeaderElection_second_call_fails:
  "CreateLeaderElection ''k'' db_empty =
     (None, \<lparr>leader_election = [\<lparr>col_elect_key = ''k'', col_leader = [], col_version = 0,
                col_ctime = 100, col_mtime = 100\<rparr>], clock = 100, faults = {}\<rparr>)
   \<and> CreateLeaderElection ''k'' (snd (CreateLeaderElection ''k'' db_empty))
       = (Some ErrInFailedTransaction, snd (CreateLeaderElection ''k'' db_empty))
   \<and> StartLeaderElection leaderElectionStore ''k'' (\<lparr>leMap = Map.empty\<rparr>, world_of db_led)
       = (Some (StoreError ErrInFailedTransaction), \<lparr>leMap = Map.empty\<rparr>,
          \<lparr>store = db_led, calls = [CallCreateLeaderElection ''k''], published = []\<rparr>)"
  by (simp add: db_empty_def db_led_def world_of_def CreateLeaderElection_def sql_insert_def
      StartLeaderElection_def leaderElectionStore_def store_Error_def)

subsection \<open>The lease rule\<close>

lemma sint32_of_int:
  "- (2 ^ 31) \<le> d \<Longrightarrow> d < 2 ^ 31 \<Longrightarrow> sint (word_of_int d :: 32 word) = d"
  by (simp add: sint_sbintrunc' signed_take_bit_int_eq_self)

lemma sint64_of_int:
  "- (2 ^ 31) \<le> d \<Longrightarrow> d < 2 ^ 31 \<Longrightarrow> sint (word_of_int d :: 64 word) = d"
  by (simp add: sint_sbintrunc' signed_take_bit_int_eq_self)

lemma sint32_diff:
  assumes "- (2 ^ 31) \<le> a - b" and "a - b < 2 ^ 31"
  shows "sint (word_of_int a - word_of_int b :: 32 word) = a - b"
proof -
  have "(word_of_int a - word_of_int b :: 32 word) = word_of_int (a - b)"
    by simp
  then show ?thesis
    using sint32_of_int[OF assms] by (simp only:)
qed

lemma sint64_diff:
  assumes "- (2 ^ 31) \<le> a - b" and "a - b < 2 ^ 31"
  shows "sint (word_of_int a - word_of_int b :: 64 word) = a - b"
proof -
  have "(word_of_int a - word_of_int b :: 64 word) = word_of_int (a - b)"
    by simp
  then show ?thesis
    using sint64_of_int[OF assms] by (simp only:)
qed

lemma checkLeaderValid_rule:
  assumes "- (2 ^ 31) \<le> now - m" and "now - m < 2 ^ 31"
  shows "checkLeaderValid (word_of_int now) (word_of_int m) \<longleftrightarrow> now - m \<le> LeaseTime"
proof -
  have "sint (word_of_int now - word_of_int m :: 64 word) = now - m"
    using assms by (rule sint64_diff)
  moreover have "sint (word_of_int LeaseTime :: 64 word) = LeaseTime"
    by (simp add: LeaseTime_def)
  ultimately show ?thesis
    by (simp add: checkLeaderValid_def word_sle_eq)
qed

text \<open>With distinct keys, the query by key returns the one record of that key.\<close>

lemma sql_select_key_distinct:
  "distinct (map col_elect_key tbl) \<Longrightarrow> r \<in> set tbl \<Longrightarrow>
     sql_select_key (col_elect_key r) tbl = [r]"
proof (induction tbl)
  case Nil
  then show ?case by simp
next
  case (Cons a tbl)
  show ?case
  proof (cases "a = r")
    case True
    have "filter (\<lambda>x. col_elect_key x = col_elect_key r) tbl = []"
      using Cons.prems(1) True by (auto simp: filter_empty_conv image_iff)
    then show ?thesis using True by (simp add: sql_select_key_def)
  next
    case False
    then have "r \<in> set tbl" using Cons.prems(2) by simp
    moreover have "col_elect_key a \<noteq> col_elect_key r"
      using Cons.prems(1) \<open>r \<in> set tbl\<close> by auto
    ultimately show ?thesis
      using Cons.IH Cons.prems(1) by (simp add: sql_select_key_def)
  qed
qed

lemma CheckMtimeExpired_found:
  assumes "OpQueryRow \<notin> faults db"
    and "sql_select_key key (leader_election db) = r # rs"
    and "- (2 ^ 31) \<le> clock db - col_mtime r" and "clock db - col_mtime r < 2 ^ 31"
  shows "CheckMtimeExpired key leaseTime db =
           ((col_leader r, sint leaseTime < clock db - col_mtime r, None), db)"
  using assms
  by (simp add: CheckMtimeExpired_def CurrDiffTimeSecond_def store_Error_def
      word_sless_alt sint32_diff)

lemma fetch_loop_ok:
  "OpScan \<notin> faults db \<Longrightarrow> OpRowsErr \<notin> faults db \<Longrightarrow>
     fetch_loop db rows out = (out @ map (scan_space db) rows, None)"
  by (induction rows arbitrary: out) simp_all

lemma ListLeaderElections_ok:
  assumes "OpQuery \<notin> faults db" and "OpScan \<notin> faults db" and "OpRowsErr \<notin> faults db"
  shows "ListLeaderElections db = ((map (scan_space db) (leader_election db), None), db)"
  using assms by (simp add: ListLeaderElections_def fetchLeaderElectionRows_def fetch_loop_ok)

lemma Valid_scan_space:
  "Valid (scan_space db r) = checkLeaderValid (word_of_int (clock db)) (word_of_int (col_mtime r))"
  by (simp add: scan_space_def)

text \<open>
  C9. On a table with distinct keys whose records are less than \<open>2 ^ 31\<close> seconds
  away from the current time, and with no failing query: \<^verbatim>\<open>CheckMtimeExpired\<close>
  reports a record expired exactly when the current time minus its \<^verbatim>\<open>mtime\<close> is
  greater than the lease time it is given; the \<^verbatim>\<open>Valid\<close> flags that
  \<^verbatim>\<open>ListLeaderElections\<close> returns hold exactly for the records whose age is at most
  \<^verbatim>\<open>LeaseTime\<close>, and each is the negation of what \<^verbatim>\<open>CheckMtimeExpired\<close> reports
  for that record and \<^verbatim>\<open>LeaseTime\<close> at the same time.
\<close>

theorem lease_expiry_rule:
  assumes "faults db \<inter> {OpQueryRow, OpQuery, OpScan, OpRowsErr} = {}"
    and "distinct (map col_elect_key (leader_election db))"
    and "\<forall>r \<in> set (leader_election db).
           - (2 ^ 31) \<le> clock db - col_mtime r \<and> clock db - col_mtime r < 2 ^ 31"
  shows "(\<forall>r \<in> set (leader_election db).
            CheckMtimeExpired (col_elect_key r) leaseTime db =
              ((col_leader r, sint leaseTime < clock db - col_mtime r, None), db))
       \<and> map Valid (fst (fst (ListLeaderElections db))) =
           map (\<lambda>r. clock db - col_mtime r \<le> LeaseTime) (leader_election db)
       \<and> map Valid (fst (fst (ListLeaderElections db))) =
           map (\<lambda>r. \<not> fst (snd (fst (CheckMtimeExpired (col_elect_key r) (word_of_int LeaseTime) db))))
             (leader_election db)"
proof -
  have nf: "OpQueryRow \<notin> faults db" "OpQuery \<notin> faults db" "OpScan \<notin> faults db"
    "OpRowsErr \<notin> faults db"
    using assms(1) by auto
  have expired: "CheckMtimeExpired (col_elect_key r) lt db =
      ((col_leader r, sint lt < clock db - col_mtime r, None), db)"
    if "r \<in> set (leader_election db)" for r lt
    using that assms(2,3) nf(1)
    by (intro CheckMtimeExpired_found[where rs = "[]"]) (simp_all add: sql_select_key_distinct)
  have valid: "Valid (scan_space db r) \<longleftrightarrow> clock db - col_mtime r \<le> LeaseTime"
    if "r \<in> set (leader_election db)" for r
    using that assms(3) by (simp add: Valid_scan_space checkLeaderValid_rule)
  have lease: "sint (word_of_int LeaseTime :: 32 word) = LeaseTime"
    by (simp add: LeaseTime_def)
  have list: "map Valid (fst (fst (ListLeaderElections db))) =
      map (\<lambda>r. clock db - col_mtime r \<le> LeaseTime) (leader_election db)"
    using nf valid by (simp add: ListLeaderElections_ok)
  have neg: "map (\<lambda>r. clock db - col_mtime r \<le> LeaseTime) (leader_election db) =
      map (\<lambda>r. \<not> fst (snd (fst (CheckMtimeExpired (col_elect_key r) (word_of_int LeaseTime) db))))
        (leader_election db)"
    using expired lease by (auto simp: not_less)
  show ?thesis
    using expired list neg by simp
qed

theorem lease_expiry_rule_witness:
  "CheckMtimeExpired ''k'' 10 db_two = ((''B'', False, None), db_two)
   \<and> CheckMtimeExpired ''j'' 10 db_two = ((''C'', True, None), db_two)
   \<and> map Valid (fst (fst (ListLeaderElections db_two))) = [True, False]"
  using lease_expiry_rule[of db_two 10]
  by (simp add: db_two_def LeaseTime_def)

lemma CheckMtimeExpired_store: "snd (CheckMtimeExpired key lt db) = db"
  by (simp add: CheckMtimeExpired_def Let_def split_beta)

section \<open>Properties of the state machine\<close>

text \<open>
  The statements below hold for every implementation \<open>S\<close> of the store interface and
  every state of it: nothing is assumed about what the store returns.
\<close>

lemmas state_machine_defs =
  tick_def tick_checkLeaderDead_def checkLeaderDead_def elect_def heartbeat_def
  changeToLeader_def changeToFollower_def publishLeaderChangeEvent_def
  checkAndClearReleaseSignal_def checkReleaseTickLimit_def setReleaseTickLimit_def
  isLeader_def word_sless_alt LeaseTime_def TickTime_def

lemmas store_defs =
  leaderElectionStore_def CompareAndSwapVersion_def GetVersion_def CheckMtimeExpired_def
  CreateLeaderElection_def sql_update_cas_def sql_select_key_def sql_insert_def cas_matches_def
  CurrDiffTimeSecond_def store_Error_def zeroTime_def

subsection \<open>The steps of a tick, one by one\<close>

lemma heartbeat_eq:
  "heartbeat S h (le, w) =
     (fst (store_CompareAndSwapVersion S (electKey le) (version le) (version le + 1) h (store w)),
      (le\<lparr>version := version le + 1\<rparr>,
       w\<lparr>store := snd (store_CompareAndSwapVersion S (electKey le) (version le) (version le + 1) h (store w)),
         calls := calls w @ [CallCompareAndSwapVersion (electKey le) (version le) (version le + 1) h]\<rparr>))"
  by (simp add: heartbeat_def Let_def split_beta)

lemma checkLeaderDead_eq:
  "checkLeaderDead S (le, w) =
     (fst (store_CheckMtimeExpired S (electKey le) (word_of_int LeaseTime) (store w)),
      (le,
       w\<lparr>store := snd (store_CheckMtimeExpired S (electKey le) (word_of_int LeaseTime) (store w)),
         calls := calls w @ [CallCheckMtimeExpired (electKey le) (word_of_int LeaseTime)]\<rparr>))"
  by (simp add: checkLeaderDead_def Let_def split_beta)

lemma elect_eq:
  "elect S h (le, w) =
     (let g = store_GetVersion S (electKey le) (store w);
          w1 = w\<lparr>store := snd g, calls := calls w @ [CallGetVersion (electKey le)]\<rparr>
      in if snd (fst g) \<noteq> None then ((False, snd (fst g)), (le, w1))
         else
           (fst (store_CompareAndSwapVersion S (electKey le) (fst (fst g)) (fst (fst g) + 1) h (snd g)),
            (le\<lparr>version := fst (fst g) + 1\<rparr>,
             w1\<lparr>store := snd (store_CompareAndSwapVersion S (electKey le) (fst (fst g)) (fst (fst g) + 1) h (snd g)),
                calls := calls w1 @ [CallCompareAndSwapVersion (electKey le) (fst (fst g)) (fst (fst g) + 1) h]\<rparr>)))"
  by (simp add: elect_def Let_def split_beta)

lemma changeToLeader_eq:
  "changeToLeader h (le, w) =
     (le\<lparr>leaderFlag := 1, leader := h\<rparr>,
      w\<lparr>published := published w @ [\<lparr>Key = electKey le, Leader = True, LeaderHost = h\<rparr>]\<rparr>)"
  by (simp add: changeToLeader_def publishLeaderChangeEvent_def isLeader_def word_sless_alt)

lemma changeToFollower_eq:
  "changeToFollower l (le, w) =
     (le\<lparr>leaderFlag := 0, leader := l\<rparr>,
      w\<lparr>published := published w @ [\<lparr>Key = electKey le, Leader = False, LeaderHost = l\<rparr>]\<rparr>)"
  by (simp add: changeToFollower_def publishLeaderChangeEvent_def isLeader_def)

text \<open>
  The second half of the tick as one nested conditional. After \<^verbatim>\<open>changeToLeader\<close>
  the known leader is the observed one, so \<^verbatim>\<open>changeToFollower\<close> is not called in
  the same tick.
\<close>

lemma tick_checkLeaderDead_eq:
  "tick_checkLeaderDead S h (le, w) =
     (let k = store_CheckMtimeExpired S (electKey le) (word_of_int LeaseTime) (store w);
          w1 = w\<lparr>store := snd k,
                 calls := calls w @ [CallCheckMtimeExpired (electKey le) (word_of_int LeaseTime)]\<rparr>
      in if snd (snd (fst k)) \<noteq> None then (le, w1)
         else if \<not> fst (snd (fst k)) then
           (if fst (fst k) = h then changeToLeader h (le, w1)
            else if leader le \<noteq> fst (fst k) then changeToFollower (fst (fst k)) (le, w1)
            else (le, w1))
         else if snd (fst (elect S h (le, w1))) \<noteq> None then snd (elect S h (le, w1))
         else if fst (fst (elect S h (le, w1))) then changeToLeader h (snd (elect S h (le, w1)))
         else snd (elect S h (le, w1)))"
  by (simp add: tick_checkLeaderDead_def checkLeaderDead_eq Let_def split_beta
      changeToLeader_def changeToFollower_def publishLeaderChangeEvent_def)

lemma tcd_frame:
  "electKey (fst (tick_checkLeaderDead S h (le, w))) = electKey le"
  "releaseSignal (fst (tick_checkLeaderDead S h (le, w))) = releaseSignal le"
  "releaseTickLimit (fst (tick_checkLeaderDead S h (le, w))) = releaseTickLimit le"
  by (simp_all add: tick_checkLeaderDead_eq changeToLeader_eq changeToFollower_eq elect_eq Let_def)

text \<open>The second half of a tick publishes nothing and changes nothing, or publishes the new state.\<close>

lemma tcd_events:
  "(published (snd (tick_checkLeaderDead S h (le, w))) = published w
      \<and> leaderFlag (fst (tick_checkLeaderDead S h (le, w))) = leaderFlag le
      \<and> leader (fst (tick_checkLeaderDead S h (le, w))) = leader le)
   \<or> published (snd (tick_checkLeaderDead S h (le, w))) = published w @
        [\<lparr>Key = electKey le,
          Leader = isLeader (leaderFlag (fst (tick_checkLeaderDead S h (le, w)))),
          LeaderHost = leader (fst (tick_checkLeaderDead S h (le, w)))\<rparr>]"
  by (simp add: tick_checkLeaderDead_eq changeToLeader_eq changeToFollower_eq elect_eq Let_def
      isLeader_def word_sless_alt)

lemma tcd_repeat:
  assumes "published (snd (tick_checkLeaderDead S h (le, w))) \<noteq> published w"
    and "leaderFlag (fst (tick_checkLeaderDead S h (le, w))) = leaderFlag le"
    and "leader (fst (tick_checkLeaderDead S h (le, w))) = leader le"
  shows "leaderFlag le = 1 \<and> leader le = h \<and> confirmed_again S h (le, w)"
  using assms
  by (simp add: tick_checkLeaderDead_eq changeToLeader_eq changeToFollower_eq elect_eq Let_def
      confirmed_again_def checkLeaderDead_eq prod_eq_iff split: if_splits)

lemma cas_versions_append: "cas_versions (xs @ ys) = cas_versions xs @ cas_versions ys"
  by (induction xs rule: cas_versions.induct) simp_all

lemma tcd_calls:
  "\<exists>cs. calls (snd (tick_checkLeaderDead S h (le, w))) = calls w @ cs
        \<and> version (fst (tick_checkLeaderDead S h (le, w))) = last (version le # cas_versions cs)"
  by (simp add: tick_checkLeaderDead_eq changeToLeader_eq changeToFollower_eq elect_eq Let_def)

lemma tcd_check_error:
  assumes "snd (snd (fst (store_CheckMtimeExpired S (electKey le) (word_of_int LeaseTime) (store w)))) \<noteq> None"
  shows "tick_checkLeaderDead S h (le, w) =
     (le, w\<lparr>store := snd (store_CheckMtimeExpired S (electKey le) (word_of_int LeaseTime) (store w)),
            calls := calls w @ [CallCheckMtimeExpired (electKey le) (word_of_int LeaseTime)]\<rparr>)"
  using assms by (simp add: tick_checkLeaderDead_eq Let_def)

subsection \<open>The five ways through a tick\<close>

lemma tick_cooldown:
  "0 <s releaseTickLimit le \<Longrightarrow>
     tick S h (le, w) = (le\<lparr>releaseTickLimit := releaseTickLimit le - 1\<rparr>, w)"
  by (simp add: tick_def checkReleaseTickLimit_def)

lemma tick_release:
  "\<not> 0 <s releaseTickLimit le \<Longrightarrow> isLeader (leaderFlag le) \<Longrightarrow> releaseSignal le = 1 \<Longrightarrow>
     tick S h (le, w) =
       (le\<lparr>releaseSignal := 0, leaderFlag := 0, leader := [], releaseTickLimit := 15\<rparr>,
        w\<lparr>published := published w @ [\<lparr>Key = electKey le, Leader = False, LeaderHost = []\<rparr>]\<rparr>)"
  by (simp add: tick_def checkReleaseTickLimit_def checkAndClearReleaseSignal_def
      changeToFollower_def publishLeaderChangeEvent_def setReleaseTickLimit_def
      isLeader_def LeaseTime_def TickTime_def)

lemma tick_follower:
  "\<not> 0 <s releaseTickLimit le \<Longrightarrow> \<not> isLeader (leaderFlag le) \<Longrightarrow>
     tick S h (le, w) = tick_checkLeaderDead S h (snd (checkAndClearReleaseSignal le), w)"
  by (simp add: tick_def checkReleaseTickLimit_def checkAndClearReleaseSignal_def)

lemma tick_leader:
  "\<not> 0 <s releaseTickLimit le \<Longrightarrow> isLeader (leaderFlag le) \<Longrightarrow> releaseSignal le \<noteq> 1 \<Longrightarrow>
     tick S h (le, w) =
       (if snd (fst (heartbeat S h (le, w))) = None \<and> fst (fst (heartbeat S h (le, w)))
        then snd (heartbeat S h (le, w))
        else tick_checkLeaderDead S h (snd (heartbeat S h (le, w))))"
  by (simp add: tick_def checkReleaseTickLimit_def checkAndClearReleaseSignal_def split_beta)

lemma tick_cases [case_names cooldown release heartbeat_ok heartbeat_failed follower]:
  obtains
    (cooldown) "0 <s releaseTickLimit le"
      "tick S h (le, w) = (le\<lparr>releaseTickLimit := releaseTickLimit le - 1\<rparr>, w)"
  | (release) "\<not> 0 <s releaseTickLimit le" "isLeader (leaderFlag le)" "releaseSignal le = 1"
      "tick S h (le, w) =
         (le\<lparr>releaseSignal := 0, leaderFlag := 0, leader := [], releaseTickLimit := 15\<rparr>,
          w\<lparr>published := published w @ [\<lparr>Key = electKey le, Leader = False, LeaderHost = []\<rparr>]\<rparr>)"
  | (heartbeat_ok) "\<not> 0 <s releaseTickLimit le" "isLeader (leaderFlag le)" "releaseSignal le \<noteq> 1"
      "fst (heartbeat S h (le, w)) = (True, None)"
      "tick S h (le, w) = snd (heartbeat S h (le, w))"
  | (heartbeat_failed) "\<not> 0 <s releaseTickLimit le" "isLeader (leaderFlag le)" "releaseSignal le \<noteq> 1"
      "fst (heartbeat S h (le, w)) \<noteq> (True, None)"
      "tick S h (le, w) = tick_checkLeaderDead S h (snd (heartbeat S h (le, w)))"
  | (follower) "\<not> 0 <s releaseTickLimit le" "\<not> isLeader (leaderFlag le)"
      "tick S h (le, w) = tick_checkLeaderDead S h (snd (checkAndClearReleaseSignal le), w)"
proof (cases "0 <s releaseTickLimit le")
  case True
  then show ?thesis using cooldown tick_cooldown by blast
next
  case nc: False
  show ?thesis
  proof (cases "isLeader (leaderFlag le)")
    case False
    then show ?thesis using follower nc tick_follower by blast
  next
    case ld: True
    show ?thesis
    proof (cases "releaseSignal le = 1")
      case True
      then show ?thesis using release nc ld tick_release by blast
    next
      case ns: False
      show ?thesis
      proof (cases "fst (heartbeat S h (le, w)) = (True, None)")
        case True
        then show ?thesis
          using heartbeat_ok[OF nc ld ns] tick_leader[OF nc ld ns, of S h w] by simp
      next
        case False
        then have "\<not> (snd (fst (heartbeat S h (le, w))) = None \<and> fst (fst (heartbeat S h (le, w))))"
          by (auto simp: prod_eq_iff)
        then have "tick S h (le, w) = tick_checkLeaderDead S h (snd (heartbeat S h (le, w)))"
          unfolding tick_leader[OF nc ld ns] by auto
        then show ?thesis
          using heartbeat_failed[OF nc ld ns False] by blast
      qed
    qed
  qed
qed

lemma tick_calls_eq:
  "calls (snd (tick S h (le, w))) = calls w @ cs \<Longrightarrow> tick_calls S h (le, w) = cs"
  by (simp add: tick_calls_def)

subsection \<open>Cooldown after a release\<close>

lemma sint_of_nat32: "m < 2 ^ 31 \<Longrightarrow> sint (of_nat m :: 32 word) = int m"
proof -
  assume "m < 2 ^ 31"
  then have "int m < 2 ^ 31" by (metis of_nat_less_numeral_power_cancel_iff)
  then have "sint (word_of_int (int m) :: 32 word) = int m"
    by (simp add: sint_sbintrunc' signed_take_bit_int_eq_self del: of_int_of_nat_eq)
  then show ?thesis by simp
qed

text \<open>With \<open>k\<close> ticks of cooldown left, each of the next \<open>n \<le> k\<close> ticks only counts down.\<close>

lemma cooldown_ticks:
  "n \<le> k \<Longrightarrow> k < 2 ^ 31 \<Longrightarrow> releaseTickLimit le = of_nat k \<Longrightarrow>
     (tick S h ^^ n) (le, w) = (le\<lparr>releaseTickLimit := of_nat (k - n)\<rparr>, w)"
proof (induction n)
  case 0
  then show ?case by simp
next
  case (Suc n)
  have pos: "0 <s (of_nat (k - n) :: 32 word)"
    using Suc.prems by (simp add: word_sless_alt sint_of_nat32 del: of_nat_diff)
  have dec: "(of_nat (k - n) :: 32 word) - 1 = of_nat (k - Suc n)"
    using Suc.prems by (simp add: Suc_diff_Suc[symmetric] del: of_nat_diff)
  have "(tick S h ^^ Suc n) (le, w) = tick S h (le\<lparr>releaseTickLimit := of_nat (k - n)\<rparr>, w)"
    using Suc by simp
  also have "\<dots> = (le\<lparr>releaseTickLimit := of_nat (k - Suc n)\<rparr>, w)"
    using pos dec by (simp add: tick_cooldown)
  finally show ?case .
qed

text \<open>
  C5. \<^verbatim>\<open>LeaseTime / TickTime * 3\<close> is 15. A tick of a leader that finds the release
  signal set (and is not cooling down) makes it a follower with no known leader, publishes
  that, sets the cooldown counter to 15 and calls the store not at all. Each of the next
  \<open>n \<le> 15\<close> ticks only decrements the counter: the store state, the calls on the
  store and the published events stay as they were, so there is no heartbeat, no lease
  check and no election. In general a tick that finds the counter positive only
  decrements it.
\<close>

theorem release_cooldown:
  assumes "\<not> 0 <s releaseTickLimit le" and "isLeader (leaderFlag le)" and "releaseSignal le = 1"
    and "n \<le> 15"
  shows "word_of_int (LeaseTime div TickTime * 3) = (15 :: 32 word)
       \<and> tick S h (le, w) =
           (le\<lparr>releaseSignal := 0, leaderFlag := 0, leader := [], releaseTickLimit := 15\<rparr>,
            w\<lparr>published := published w @ [\<lparr>Key = electKey le, Leader = False, LeaderHost = []\<rparr>]\<rparr>)
       \<and> (tick S h ^^ n) (tick S h (le, w)) =
           (le\<lparr>releaseSignal := 0, leaderFlag := 0, leader := [], releaseTickLimit := of_nat (15 - n)\<rparr>,
            w\<lparr>published := published w @ [\<lparr>Key = electKey le, Leader = False, LeaderHost = []\<rparr>]\<rparr>)
       \<and> (\<forall>le' w'. 0 <s releaseTickLimit le' \<longrightarrow>
             tick S h (le', w') = (le'\<lparr>releaseTickLimit := releaseTickLimit le' - 1\<rparr>, w'))"
proof -
  have c: "word_of_int (LeaseTime div TickTime * 3) = (15 :: 32 word)"
    by (simp add: LeaseTime_def TickTime_def)
  have r: "tick S h (le, w) =
           (le\<lparr>releaseSignal := 0, leaderFlag := 0, leader := [], releaseTickLimit := 15\<rparr>,
            w\<lparr>published := published w @ [\<lparr>Key = electKey le, Leader = False, LeaderHost = []\<rparr>]\<rparr>)"
    using assms(1-3) by (rule tick_release)
  have i: "(tick S h ^^ n)
             (le\<lparr>releaseSignal := 0, leaderFlag := 0, leader := [], releaseTickLimit := 15\<rparr>,
              w\<lparr>published := published w @ [\<lparr>Key = electKey le, Leader = False, LeaderHost = []\<rparr>]\<rparr>) =
           (le\<lparr>releaseSignal := 0, leaderFlag := 0, leader := [], releaseTickLimit := of_nat (15 - n)\<rparr>,
            w\<lparr>published := published w @ [\<lparr>Key = electKey le, Leader = False, LeaderHost = []\<rparr>]\<rparr>)"
    using cooldown_ticks[OF assms(4), of "le\<lparr>releaseSignal := 0, leaderFlag := 0, leader := [], releaseTickLimit := 15\<rparr>" S h]
    by simp
  show ?thesis
  proof (intro conjI)
    show "word_of_int (LeaseTime div TickTime * 3) = (15 :: 32 word)"
      by (rule c)
    show "tick S h (le, w) =
           (le\<lparr>releaseSignal := 0, leaderFlag := 0, leader := [], releaseTickLimit := 15\<rparr>,
            w\<lparr>published := published w @ [\<lparr>Key = electKey le, Leader = False, LeaderHost = []\<rparr>]\<rparr>)"
      by (rule r)
    show "(tick S h ^^ n) (tick S h (le, w)) =
           (le\<lparr>releaseSignal := 0, leaderFlag := 0, leader := [], releaseTickLimit := of_nat (15 - n)\<rparr>,
            w\<lparr>published := published w @ [\<lparr>Key = electKey le, Leader = False, LeaderHost = []\<rparr>]\<rparr>)"
      unfolding r by (rule i)
    show "\<forall>le' w'. 0 <s releaseTickLimit le' \<longrightarrow>
             tick S h (le', w') = (le'\<lparr>releaseTickLimit := releaseTickLimit le' - 1\<rparr>, w')"
      using tick_cooldown by blast
  qed
qed

theorem release_cooldown_witness:
  "(tick leaderElectionStore ''A'' ^^ 15)
     (tick leaderElectionStore ''A'' (le_leader\<lparr>releaseSignal := 1\<rparr>, world_of db_led)) =
   (\<lparr>electKey = ''k'', leaderFlag = 0, version = 3, releaseSignal = 0,
      releaseTickLimit = 0, leader = []\<rparr>,
    \<lparr>store = db_led, calls = [],
      published = [\<lparr>Key = ''k'', Leader = False, LeaderHost = []\<rparr>]\<rparr>)"
proof -
  have h: "\<not> 0 <s releaseTickLimit (le_leader\<lparr>releaseSignal := 1\<rparr>)"
    "isLeader (leaderFlag (le_leader\<lparr>releaseSignal := 1\<rparr>))"
    "releaseSignal (le_leader\<lparr>releaseSignal := 1\<rparr>) = 1" "(15::nat) \<le> 15"
    by (simp_all add: le_leader_def isLeader_def word_sless_alt)
  note t = release_cooldown[OF h, of leaderElectionStore "''A''" "world_of db_led"]
  show ?thesis
    using t[THEN conjunct2, THEN conjunct2, THEN conjunct1]
    by (simp add: le_leader_def world_of_def)
qed

subsection \<open>A release requested of a follower\<close>

text \<open>
  C10, as stated, fails while the follower is cooling down: the tick returns before it
  reads the release signal, so the signal stays set and the tick with the signal set does
  not end in the state of the tick with the signal clear.
\<close>

theorem follower_release_kept_in_cooldown:
  "\<not> isLeader (leaderFlag le_cooling)
   \<and> tick leaderElectionStore ''A'' (le_cooling\<lparr>releaseSignal := 1\<rparr>, world_of db_led)
       \<noteq> tick leaderElectionStore ''A'' (le_cooling\<lparr>releaseSignal := 0\<rparr>, world_of db_led)
   \<and> releaseSignal (fst (tick leaderElectionStore ''A''
        (le_cooling\<lparr>releaseSignal := 1\<rparr>, world_of db_led))) = 1"
  by (simp add: le_cooling_def tick_def checkReleaseTickLimit_def isLeader_def word_sless_alt)

text \<open>
  C10, amended. For a state machine whose \<^verbatim>\<open>leaderFlag\<close> is not set: when the cooldown
  counter is not positive, a tick with the release signal set ends in exactly the state
  (fields, store, calls on the store, events) of the same tick with the signal clear, the
  signal is cleared and the cooldown counter is what it was; when the counter is positive,
  the tick only decrements it and the signal stays set.
\<close>

theorem follower_release_discarded:
  assumes "\<not> isLeader (leaderFlag le)"
  shows "(\<not> 0 <s releaseTickLimit le \<longrightarrow>
            tick S h (le\<lparr>releaseSignal := 1\<rparr>, w) = tick S h (le\<lparr>releaseSignal := 0\<rparr>, w)
          \<and> releaseSignal (fst (tick S h (le\<lparr>releaseSignal := 1\<rparr>, w))) = 0
          \<and> releaseTickLimit (fst (tick S h (le\<lparr>releaseSignal := 1\<rparr>, w))) = releaseTickLimit le)
       \<and> (0 <s releaseTickLimit le \<longrightarrow>
            tick S h (le\<lparr>releaseSignal := 1\<rparr>, w) =
              (le\<lparr>releaseSignal := 1, releaseTickLimit := releaseTickLimit le - 1\<rparr>, w))"
proof (intro conjI impI)
  assume nc: "\<not> 0 <s releaseTickLimit le"
  have one: "tick S h (le\<lparr>releaseSignal := 1\<rparr>, w) =
      tick_checkLeaderDead S h (le\<lparr>releaseSignal := 0\<rparr>, w)"
    using assms nc by (simp add: tick_follower checkAndClearReleaseSignal_def)
  have zero: "tick S h (le\<lparr>releaseSignal := 0\<rparr>, w) =
      tick_checkLeaderDead S h (le\<lparr>releaseSignal := 0\<rparr>, w)"
    using assms nc by (simp add: tick_follower checkAndClearReleaseSignal_def)
  show "tick S h (le\<lparr>releaseSignal := 1\<rparr>, w) = tick S h (le\<lparr>releaseSignal := 0\<rparr>, w)"
    by (simp only: one zero)
  show "releaseSignal (fst (tick S h (le\<lparr>releaseSignal := 1\<rparr>, w))) = 0"
    by (simp add: one tcd_frame)
  show "releaseTickLimit (fst (tick S h (le\<lparr>releaseSignal := 1\<rparr>, w))) = releaseTickLimit le"
    by (simp add: one tcd_frame)
next
  assume "0 <s releaseTickLimit le"
  then show "tick S h (le\<lparr>releaseSignal := 1\<rparr>, w) =
              (le\<lparr>releaseSignal := 1, releaseTickLimit := releaseTickLimit le - 1\<rparr>, w)"
    by (simp add: tick_cooldown)
qed

theorem follower_release_discarded_witness:
  "tick leaderElectionStore ''A'' (le_follower\<lparr>releaseSignal := 1\<rparr>, world_of db_led) =
     (\<lparr>electKey = ''k'', leaderFlag = 1, version = 0, releaseSignal = 0,
        releaseTickLimit = 0, leader = ''A''\<rparr>,
      \<lparr>store = db_led, calls = [CallCheckMtimeExpired ''k'' 10],
        published = [\<lparr>Key = ''k'', Leader = True, LeaderHost = ''A''\<rparr>]\<rparr>)
   \<and> tick leaderElectionStore ''A'' (le_cooling\<lparr>releaseSignal := 1\<rparr>, world_of db_led) =
     (\<lparr>electKey = ''k'', leaderFlag = 0, version = 3, releaseSignal = 1,
        releaseTickLimit = 2, leader = []\<rparr>, world_of db_led)"
proof -
  have f: "\<not> isLeader (leaderFlag le_follower)" and nc: "\<not> 0 <s releaseTickLimit le_follower"
    by (simp_all add: le_follower_def isLeader_def)
  have c: "\<not> isLeader (leaderFlag le_cooling)" and cc: "0 <s releaseTickLimit le_cooling"
    by (simp_all add: le_cooling_def isLeader_def word_sless_alt)
  have clear: "tick leaderElectionStore ''A'' (le_follower\<lparr>releaseSignal := 0\<rparr>, world_of db_led) =
     (\<lparr>electKey = ''k'', leaderFlag = 1, version = 0, releaseSignal = 0,
        releaseTickLimit = 0, leader = ''A''\<rparr>,
      \<lparr>store = db_led, calls = [CallCheckMtimeExpired ''k'' 10],
        published = [\<lparr>Key = ''k'', Leader = True, LeaderHost = ''A''\<rparr>]\<rparr>)"
    by (simp add: le_follower_def world_of_def db_led_def state_machine_defs store_defs)
  show ?thesis
    using follower_release_discarded[OF f, of leaderElectionStore "''A''" "world_of db_led"] nc
      follower_release_discarded[OF c, of leaderElectionStore "''A''" "world_of db_led"] cc
    by (simp add: clear) (simp add: le_cooling_def)
qed

subsection \<open>The local version\<close>

lemma tick_version:
  "version (fst (tick S h (le, w))) = last (version le # cas_versions (tick_calls S h (le, w)))"
proof (cases rule: tick_cases[of le S h w])
  case cooldown
  then show ?thesis by (simp add: tick_calls_def)
next
  case release
  then show ?thesis by (simp add: tick_calls_def)
next
  case heartbeat_ok
  then show ?thesis by (simp add: tick_calls_def heartbeat_eq)
next
  case heartbeat_failed
  obtain cs where cs:
    "calls (snd (tick_checkLeaderDead S h (snd (heartbeat S h (le, w))))) =
       calls (snd (snd (heartbeat S h (le, w)))) @ cs"
    "version (fst (tick_checkLeaderDead S h (snd (heartbeat S h (le, w))))) =
       last (version (fst (snd (heartbeat S h (le, w)))) # cas_versions cs)"
    using tcd_calls[of S h "fst (snd (heartbeat S h (le, w)))" "snd (snd (heartbeat S h (le, w)))"]
    by auto
  have "tick_calls S h (le, w) =
      CallCompareAndSwapVersion (electKey le) (version le) (version le + 1) h # cs"
    using cs(1) heartbeat_failed(5) by (intro tick_calls_eq) (simp add: heartbeat_eq)
  then show ?thesis
    using cs(2) heartbeat_failed(5) by (simp add: heartbeat_eq)
next
  case follower
  obtain cs where cs:
    "calls (snd (tick_checkLeaderDead S h (snd (checkAndClearReleaseSignal le), w))) = calls w @ cs"
    "version (fst (tick_checkLeaderDead S h (snd (checkAndClearReleaseSignal le), w))) =
       last (version (snd (checkAndClearReleaseSignal le)) # cas_versions cs)"
    using tcd_calls[of S h "snd (checkAndClearReleaseSignal le)" w] by auto
  have "tick_calls S h (le, w) = cs"
    using cs(1) follower(3) by (intro tick_calls_eq) simp
  then show ?thesis
    using cs(2) follower(3) by (simp add: checkAndClearReleaseSignal_def)
qed

text \<open>
  C3, as stated, fails: host \<open>A\<close> believes it leads at version 3 while the record stands
  at version 9 under host \<open>B\<close>. The heartbeat swap from 3 to 4 is not applied (and returns
  no error), and the tick leaves the local version at 4.
\<close>

theorem version_advanced_by_refused_heartbeat:
  "fst (heartbeat leaderElectionStore ''A'' (le_leader, world_of db_taken)) = (False, None)
   \<and> version le_leader = 3
   \<and> tick leaderElectionStore ''A'' (le_leader, world_of db_taken) =
       (\<lparr>electKey = ''k'', leaderFlag = 0, version = 4, releaseSignal = 0,
          releaseTickLimit = 0, leader = ''B''\<rparr>,
        \<lparr>store = db_taken,
          calls = [CallCompareAndSwapVersion ''k'' 3 4 ''A'', CallCheckMtimeExpired ''k'' 10],
          published = [\<lparr>Key = ''k'', Leader = False, LeaderHost = ''B''\<rparr>]\<rparr>)"
  by (simp add: le_leader_def world_of_def db_taken_def state_machine_defs store_defs)

text \<open>
  C3, amended. The local version is written before the swap is sent and is not restored
  afterwards: \<^verbatim>\<open>heartbeat\<close> leaves it at the old version plus one whatever the store
  returns; \<^verbatim>\<open>elect\<close> leaves it at the version read from the store plus one whenever
  \<^verbatim>\<open>GetVersion\<close> returns no error (and unchanged when it does), whatever the swap
  returns; and after any tick the local version is the new version of the last swap the
  tick sent, or unchanged when the tick sent none.
\<close>

theorem version_written_before_cas:
  "version (fst (snd (heartbeat S h (le, w)))) = version le + 1
   \<and> version (fst (snd (elect S h (le, w)))) =
       (if snd (fst (store_GetVersion S (electKey le) (store w))) \<noteq> None then version le
        else fst (fst (store_GetVersion S (electKey le) (store w))) + 1)
   \<and> version (fst (tick S h (le, w))) = last (version le # cas_versions (tick_calls S h (le, w)))"
  using tick_version[of S h le w] by (simp add: heartbeat_eq elect_eq Let_def)

subsection \<open>An error of the lease check\<close>

lemma mainLoop_select_runs:
  "CtxDone \<notin> set sigs \<Longrightarrow> \<not> snd (mainLoop_select S h sigs c)"
proof (induction sigs arbitrary: c)
  case Nil
  then show ?case by simp
next
  case (Cons s sigs)
  then show ?case by (cases s) simp_all
qed

text \<open>
  C7, as stated, fails: with the database unreachable, the heartbeat of leader \<open>A\<close> at
  version 3 returns an error and so does the lease check; the tick publishes nothing and
  leaves \<^verbatim>\<open>leaderFlag\<close>, the known leader and the cooldown counter as they were, but
  the local version is now 4.
\<close>

theorem check_error_after_failed_heartbeat:
  "check_fails leaderElectionStore ''k'' db_down
   \<and> version le_leader = 3
   \<and> tick leaderElectionStore ''A'' (le_leader, world_of db_down) =
       (\<lparr>electKey = ''k'', leaderFlag = 1, version = 4, releaseSignal = 0,
          releaseTickLimit = 0, leader = ''A''\<rparr>,
        \<lparr>store = db_down,
          calls = [CallCompareAndSwapVersion ''k'' 3 4 ''A'', CallCheckMtimeExpired ''k'' 10],
          published = []\<rparr>)"
  by (simp add: check_fails_def le_leader_def world_of_def db_down_def db_led_def
      state_machine_defs store_defs)

text \<open>
  C7, amended. When the lease check of a tick returns an error, the tick publishes no
  event, makes no further call on the store and leaves \<^verbatim>\<open>leaderFlag\<close>, the known
  leader and the cooldown counter unchanged. The local version is unchanged when the
  state machine entered the tick as follower (the tick only clears the release signal),
  and is one more than before when it entered as leader, since the heartbeat that failed
  first has already written it. \<^verbatim>\<open>mainLoop\<close> returns only when its context is
  cancelled: on ticks alone it never returns, whatever the store answers.
\<close>

theorem check_error_keeps_belief:
  "(\<not> 0 <s releaseTickLimit le \<and> \<not> isLeader (leaderFlag le) \<and> check_fails S (electKey le) (store w) \<longrightarrow>
      tick S h (le, w) =
        (snd (checkAndClearReleaseSignal le),
         w\<lparr>store := snd (store_CheckMtimeExpired S (electKey le) (word_of_int LeaseTime) (store w)),
           calls := calls w @ [CallCheckMtimeExpired (electKey le) (word_of_int LeaseTime)]\<rparr>))
   \<and> (\<not> 0 <s releaseTickLimit le \<and> isLeader (leaderFlag le) \<and> releaseSignal le \<noteq> 1
        \<and> fst (heartbeat S h (le, w)) \<noteq> (True, None)
        \<and> check_fails S (electKey le) (store (snd (snd (heartbeat S h (le, w))))) \<longrightarrow>
      tick S h (le, w) =
        (le\<lparr>version := version le + 1\<rparr>,
         w\<lparr>store := snd (store_CheckMtimeExpired S (electKey le) (word_of_int LeaseTime)
                          (store (snd (snd (heartbeat S h (le, w)))))),
           calls := calls w @
             [CallCompareAndSwapVersion (electKey le) (version le) (version le + 1) h,
              CallCheckMtimeExpired (electKey le) (word_of_int LeaseTime)]\<rparr>))
   \<and> (CtxDone \<notin> set sigs \<longrightarrow> \<not> snd (mainLoop S h sigs (le, w)))"
proof (intro conjI impI)
  assume a: "\<not> 0 <s releaseTickLimit le \<and> \<not> isLeader (leaderFlag le)
             \<and> check_fails S (electKey le) (store w)"
  then have "tick S h (le, w) = tick_checkLeaderDead S h (snd (checkAndClearReleaseSignal le), w)"
    by (simp add: tick_follower)
  moreover have "electKey (snd (checkAndClearReleaseSignal le)) = electKey le"
    by (simp add: checkAndClearReleaseSignal_def)
  ultimately show "tick S h (le, w) =
        (snd (checkAndClearReleaseSignal le),
         w\<lparr>store := snd (store_CheckMtimeExpired S (electKey le) (word_of_int LeaseTime) (store w)),
           calls := calls w @ [CallCheckMtimeExpired (electKey le) (word_of_int LeaseTime)]\<rparr>)"
    using a tcd_check_error[of S "snd (checkAndClearReleaseSignal le)" w h]
    by (simp add: check_fails_def)
next
  assume a: "\<not> 0 <s releaseTickLimit le \<and> isLeader (leaderFlag le) \<and> releaseSignal le \<noteq> 1
        \<and> fst (heartbeat S h (le, w)) \<noteq> (True, None)
        \<and> check_fails S (electKey le) (store (snd (snd (heartbeat S h (le, w)))))"
  then have t: "tick S h (le, w) = tick_checkLeaderDead S h (snd (heartbeat S h (le, w)))"
    by (cases rule: tick_cases[of le S h w]) simp_all
  have "tick_checkLeaderDead S h (fst (snd (heartbeat S h (le, w))), snd (snd (heartbeat S h (le, w)))) =
     (fst (snd (heartbeat S h (le, w))),
      (snd (snd (heartbeat S h (le, w))))
        \<lparr>store := snd (store_CheckMtimeExpired S (electKey (fst (snd (heartbeat S h (le, w)))))
                   (word_of_int LeaseTime) (store (snd (snd (heartbeat S h (le, w)))))),
         calls := calls (snd (snd (heartbeat S h (le, w)))) @
           [CallCheckMtimeExpired (electKey (fst (snd (heartbeat S h (le, w))))) (word_of_int LeaseTime)]\<rparr>)"
    using a by (intro tcd_check_error) (simp add: check_fails_def heartbeat_eq)
  then show "tick S h (le, w) =
        (le\<lparr>version := version le + 1\<rparr>,
         w\<lparr>store := snd (store_CheckMtimeExpired S (electKey le) (word_of_int LeaseTime)
                          (store (snd (snd (heartbeat S h (le, w)))))),
           calls := calls w @
             [CallCompareAndSwapVersion (electKey le) (version le) (version le + 1) h,
              CallCheckMtimeExpired (electKey le) (word_of_int LeaseTime)]\<rparr>)"
    unfolding t by (simp add: heartbeat_eq)
next
  assume "CtxDone \<notin> set sigs"
  then show "\<not> snd (mainLoop S h sigs (le, w))"
    by (simp add: mainLoop_def mainLoop_select_runs)
qed

theorem check_error_keeps_belief_witness:
  "tick leaderElectionStore ''A'' (le_follower\<lparr>releaseSignal := 1\<rparr>, world_of db_down) =
     (le_follower, \<lparr>store = db_down, calls = [CallCheckMtimeExpired ''k'' 10], published = []\<rparr>)
   \<and> tick leaderElectionStore ''A'' (le_leader, world_of db_down) =
     (le_leader\<lparr>version := 4\<rparr>,
      \<lparr>store = db_down,
        calls = [CallCompareAndSwapVersion ''k'' 3 4 ''A'', CallCheckMtimeExpired ''k'' 10],
        published = []\<rparr>)
   \<and> \<not> snd (mainLoop leaderElectionStore ''A'' [TickerC, TickerC, TickerC] (le_leader, world_of db_down))"
proof -
  have down: "check_fails leaderElectionStore ''k'' db_down"
    by (simp add: check_fails_def db_down_def db_led_def store_defs)
  have hb: "heartbeat leaderElectionStore ''A'' (le_leader, world_of db_down) =
      ((False, Some (DriverError OpBegin)),
       (le_leader\<lparr>version := 4\<rparr>,
        \<lparr>store = db_down, calls = [CallCompareAndSwapVersion ''k'' 3 4 ''A''], published = []\<rparr>))"
    by (simp add: heartbeat_eq le_leader_def world_of_def db_down_def db_led_def store_defs)
  note t1 = check_error_keeps_belief[of "le_follower\<lparr>releaseSignal := 1\<rparr>" leaderElectionStore
      "world_of db_down" "''A''" "[]", THEN conjunct1]
  note t2 = check_error_keeps_belief[of le_leader leaderElectionStore
      "world_of db_down" "''A''" "[TickerC, TickerC, TickerC]", THEN conjunct2]
  have f: "tick leaderElectionStore ''A'' (le_follower\<lparr>releaseSignal := 1\<rparr>, world_of db_down) =
     (le_follower, \<lparr>store = db_down, calls = [CallCheckMtimeExpired ''k'' 10], published = []\<rparr>)"
    using t1 down
    by (simp add: le_follower_def world_of_def isLeader_def checkAndClearReleaseSignal_def
        LeaseTime_def leaderElectionStore_def CheckMtimeExpired_store)
  have l: "tick leaderElectionStore ''A'' (le_leader, world_of db_down) =
     (le_leader\<lparr>version := 4\<rparr>,
      \<lparr>store = db_down,
        calls = [CallCompareAndSwapVersion ''k'' 3 4 ''A'', CallCheckMtimeExpired ''k'' 10],
        published = []\<rparr>)"
    using t2[THEN conjunct1] down
    by (simp add: hb) (simp add: le_leader_def world_of_def isLeader_def word_sless_alt
        LeaseTime_def leaderElectionStore_def CheckMtimeExpired_store)
  have m: "\<not> snd (mainLoop leaderElectionStore ''A'' [TickerC, TickerC, TickerC] (le_leader, world_of db_down))"
    using t2[THEN conjunct2] by simp
  show ?thesis using f l m by (simp only:) simp
qed

subsection \<open>Leadership-change events\<close>

lemma tick_events_shape:
  "(tick_events S h (le, w) = []
      \<and> leaderFlag (fst (tick S h (le, w))) = leaderFlag le
      \<and> leader (fst (tick S h (le, w))) = leader le)
   \<or> tick_events S h (le, w) =
        [\<lparr>Key = electKey le, Leader = isLeader (leaderFlag (fst (tick S h (le, w)))),
          LeaderHost = leader (fst (tick S h (le, w)))\<rparr>]"
proof (cases rule: tick_cases[of le S h w])
  case cooldown
  then show ?thesis by (simp add: tick_events_def)
next
  case release
  then show ?thesis by (simp add: tick_events_def isLeader_def)
next
  case heartbeat_ok
  then show ?thesis by (simp add: tick_events_def heartbeat_eq)
next
  case heartbeat_failed
  show ?thesis
    using tcd_events[of S h "le\<lparr>version := version le + 1\<rparr>" "snd (snd (heartbeat S h (le, w)))"]
      heartbeat_failed(5)
    by (auto simp: tick_events_def heartbeat_eq)
next
  case follower
  show ?thesis
    using tcd_events[of S h "snd (checkAndClearReleaseSignal le)" w] follower(3)
    by (auto simp: tick_events_def checkAndClearReleaseSignal_def)
qed

lemma tick_events_repeat:
  assumes "tick_events S h (le, w) \<noteq> []"
    and "leaderFlag (fst (tick S h (le, w))) = leaderFlag le"
    and "leader (fst (tick S h (le, w))) = leader le"
  shows "leaderFlag le = 1 \<and> leader le = h
       \<and> \<not> 0 <s releaseTickLimit le \<and> releaseSignal le \<noteq> 1
       \<and> fst (heartbeat S h (le, w)) \<noteq> (True, None)
       \<and> confirmed_again S h (snd (heartbeat S h (le, w)))"
proof (cases rule: tick_cases[of le S h w])
  case cooldown
  then show ?thesis using assms(1) by (simp add: tick_events_def)
next
  case release
  then show ?thesis using assms(2) by (auto simp: isLeader_def)
next
  case heartbeat_ok
  then show ?thesis using assms(1) by (simp add: tick_events_def heartbeat_eq)
next
  case heartbeat_failed
  have "published (snd (tick_checkLeaderDead S h
            (le\<lparr>version := version le + 1\<rparr>, snd (snd (heartbeat S h (le, w))))))
          \<noteq> published (snd (snd (heartbeat S h (le, w))))"
    using assms(1) heartbeat_failed(5) by (auto simp: tick_events_def heartbeat_eq)
  then have "leaderFlag (le\<lparr>version := version le + 1\<rparr>) = 1
      \<and> leader (le\<lparr>version := version le + 1\<rparr>) = h
      \<and> confirmed_again S h (le\<lparr>version := version le + 1\<rparr>, snd (snd (heartbeat S h (le, w))))"
    using assms(2,3) heartbeat_failed(5) by (intro tcd_repeat) (simp_all add: heartbeat_eq)
  moreover have "snd (heartbeat S h (le, w)) =
      (le\<lparr>version := version le + 1\<rparr>, snd (snd (heartbeat S h (le, w))))"
    by (simp add: heartbeat_eq)
  ultimately show ?thesis
    using heartbeat_failed(1,3,4) by simp
next
  case follower
  have "published (snd (tick_checkLeaderDead S h (snd (checkAndClearReleaseSignal le), w)))
          \<noteq> published w"
    using assms(1) follower(3) by (auto simp: tick_events_def)
  then have "leaderFlag (snd (checkAndClearReleaseSignal le)) = 1"
    using assms(2,3) follower(3)
      tcd_repeat[of S h "snd (checkAndClearReleaseSignal le)" w]
    by (simp add: checkAndClearReleaseSignal_def split: if_splits)
  then have "leaderFlag le = 1"
    by (simp add: checkAndClearReleaseSignal_def split: if_splits)
  then show ?thesis
    using follower(2) by (simp add: isLeader_def word_sless_alt)
qed

lemma tick_heartbeat_applies:
  assumes "heartbeat_applies S h (le, w)"
  shows "published (snd (tick S h (le, w))) = published w
       \<and> leaderFlag (fst (tick S h (le, w))) = leaderFlag le
       \<and> leader (fst (tick S h (le, w))) = leader le"
  using assms
  by (cases rule: tick_cases[of le S h w]) (simp_all add: heartbeat_applies_def heartbeat_eq)

lemma heartbeats_silent:
  "(\<forall>i<n. heartbeat_applies S h ((tick S h ^^ i) c)) \<Longrightarrow>
     published (snd ((tick S h ^^ n) c)) = published (snd c)
     \<and> leaderFlag (fst ((tick S h ^^ n) c)) = leaderFlag (fst c)
     \<and> leader (fst ((tick S h ^^ n) c)) = leader (fst c)"
proof (induction n)
  case 0
  then show ?case by simp
next
  case (Suc n)
  have "heartbeat_applies S h ((tick S h ^^ n) c)"
    using Suc.prems by simp
  then have "heartbeat_applies S h (fst ((tick S h ^^ n) c), snd ((tick S h ^^ n) c))"
    by simp
  from tick_heartbeat_applies[OF this] show ?case
    using Suc by simp
qed

text \<open>The loop on ticks alone, and on ticks followed by the cancellation.\<close>

lemma mainLoop_select_ticks:
  "mainLoop_select S h (replicate n TickerC) c = ((tick S h ^^ n) c, False)"
proof (induction n arbitrary: c)
  case 0
  then show ?case by simp
next
  case (Suc n)
  then show ?case by (simp add: funpow_swap1)
qed

lemma mainLoop_select_cancel:
  "mainLoop_select S h (replicate n TickerC @ CtxDone # sigs) c =
     (changeToFollower [] ((tick S h ^^ n) c), True)"
proof (induction n arbitrary: c)
  case 0
  then show ?case by simp
next
  case (Suc n)
  then show ?case by (simp add: funpow_swap1)
qed

text \<open>
  Leader \<open>A\<close> at version 3, in step with the store, when transactions fail for one tick:
  the heartbeat returns an error, the lease check still names \<open>A\<close> with a live lease, and
  \<^verbatim>\<open>changeToLeader\<close> runs again.
\<close>

lemma glitch_tick:
  "tick leaderElectionStore ''A'' (le_leader, world_of db_glitch) =
       (\<lparr>electKey = ''k'', leaderFlag = 1, version = 4, releaseSignal = 0,
          releaseTickLimit = 0, leader = ''A''\<rparr>,
        \<lparr>store = db_glitch,
          calls = [CallCompareAndSwapVersion ''k'' 3 4 ''A'', CallCheckMtimeExpired ''k'' 10],
          published = [\<lparr>Key = ''k'', Leader = True, LeaderHost = ''A''\<rparr>]\<rparr>)"
  by (simp add: le_leader_def world_of_def db_glitch_def db_led_def state_machine_defs store_defs)

text \<open>
  A follower, with the events \<open>p\<close> published so far, finds the lease of \<open>db_expired\<close>
  expired and wins the election; its next ten heartbeats are applied.
\<close>

lemma acquisition:
  "tick leaderElectionStore ''A'' (le_follower, \<lparr>store = db_expired, calls = [], published = p\<rparr>) =
     (\<lparr>electKey = ''k'', leaderFlag = 1, version = 1, releaseSignal = 0,
        releaseTickLimit = 0, leader = ''A''\<rparr>,
      \<lparr>store = \<lparr>leader_election =
                  [\<lparr>col_elect_key = ''k'', col_leader = ''A'', col_version = 1,
                    col_ctime = 100, col_mtime = 100\<rparr>],
                clock = 111, faults = {}\<rparr>,
        calls = [CallCheckMtimeExpired ''k'' 10, CallGetVersion ''k'',
                 CallCompareAndSwapVersion ''k'' 0 1 ''A''],
        published = p @ [\<lparr>Key = ''k'', Leader = True, LeaderHost = ''A''\<rparr>]\<rparr>)"
  by (simp add: le_follower_def db_expired_def state_machine_defs store_defs)

lemma ten_heartbeats:
  "\<forall>i<10. heartbeat_applies leaderElectionStore ''A''
     ((tick leaderElectionStore ''A'' ^^ i)
        (tick leaderElectionStore ''A''
           (le_follower, \<lparr>store = db_expired, calls = [], published = p\<rparr>)))"
  unfolding acquisition
  by (simp add: eval_nat_numeral less_Suc_eq all_conj_distrib heartbeat_applies_def
      state_machine_defs store_defs)

text \<open>
  The same run inside \<^verbatim>\<open>mainLoop\<close>, from its start: eleven ticks, the first of which
  wins the election.
\<close>

lemma run_from_start:
  "fst (mainLoop leaderElectionStore ''A'' (replicate 11 TickerC) (le_follower, world_of db_expired)) =
     (tick leaderElectionStore ''A'' ^^ 10)
       (tick leaderElectionStore ''A''
          (le_follower, \<lparr>store = db_expired, calls = [],
             published = [\<lparr>Key = ''k'', Leader = False, LeaderHost = []\<rparr>]\<rparr>))"
proof -
  have "changeToFollower [] (le_follower, world_of db_expired) =
      (le_follower, \<lparr>store = db_expired, calls = [],
         published = [\<lparr>Key = ''k'', Leader = False, LeaderHost = []\<rparr>]\<rparr>)"
    by (simp add: changeToFollower_eq le_follower_def world_of_def)
  moreover have "(f ^^ 11) x = (f ^^ 10) (f x)" for f :: "'a \<Rightarrow> 'a" and x
  proof -
    have "(f ^^ 11) x = (f ^^ Suc 10) x" by simp
    also have "\<dots> = (f ^^ 10) (f x)" by (simp only: funpow_Suc_right o_apply)
    finally show ?thesis .
  qed
  ultimately show ?thesis
    by (simp add: mainLoop_def mainLoop_select_ticks del: funpow.simps)
qed

lemma run_from_start_events:
  "published (snd (fst (mainLoop leaderElectionStore ''A'' (replicate 11 TickerC)
       (le_follower, world_of db_expired)))) =
     [\<lparr>Key = ''k'', Leader = False, LeaderHost = []\<rparr>,
      \<lparr>Key = ''k'', Leader = True, LeaderHost = ''A''\<rparr>]"
  using heartbeats_silent[OF ten_heartbeats, of "[\<lparr>Key = ''k'', Leader = False, LeaderHost = []\<rparr>]"]
  by (simp add: run_from_start) (simp add: acquisition)

text \<open>
  C4, as stated, fails in two ways. The tick of \<open>glitch_tick\<close> leaves \<^verbatim>\<open>leaderFlag\<close>
  at 1 and the known leader at \<open>A\<close>, and publishes a leadership-change event. And
  \<^verbatim>\<open>mainLoop\<close>, run from its start over the tick that wins the election and ten
  ticks of applied heartbeats, has published two events, not one: the first is published
  by the \<^verbatim>\<open>changeToFollower("")\<close> that opens \<^verbatim>\<open>mainLoop\<close>, for a state machine that
  was a follower with no known leader already.
\<close>

theorem event_without_change:
  "leaderFlag le_leader = 1 \<and> leader le_leader = ''A''
   \<and> leaderFlag (fst (tick leaderElectionStore ''A'' (le_leader, world_of db_glitch))) = 1
   \<and> leader (fst (tick leaderElectionStore ''A'' (le_leader, world_of db_glitch))) = ''A''
   \<and> published (world_of db_glitch) = []
   \<and> published (snd (tick leaderElectionStore ''A'' (le_leader, world_of db_glitch))) =
       [\<lparr>Key = ''k'', Leader = True, LeaderHost = ''A''\<rparr>]
   \<and> leaderFlag le_follower = 0 \<and> leader le_follower = []
   \<and> published (world_of db_expired) = []
   \<and> published (snd (fst (mainLoop leaderElectionStore ''A'' (replicate 11 TickerC)
        (le_follower, world_of db_expired)))) =
       [\<lparr>Key = ''k'', Leader = False, LeaderHost = []\<rparr>,
        \<lparr>Key = ''k'', Leader = True, LeaderHost = ''A''\<rparr>]"
  by (simp add: glitch_tick run_from_start_events) (simp add: le_leader_def le_follower_def world_of_def)

text \<open>
  C4, amended. \<^verbatim>\<open>mainLoop\<close> publishes one event (follower, no leader) when it starts
  and one more when its context is cancelled, whether or not anything changes; in between
  it publishes what its ticks publish. A tick publishes at most one event. A tick that
  changes \<^verbatim>\<open>leaderFlag\<close> or the known leader publishes exactly one, which carries the
  key and the state after the tick. Over any number \<open>n\<close> of consecutive ticks whose
  heartbeats are applied (10 in particular) nothing is published. A tick that leaves
  \<^verbatim>\<open>leaderFlag\<close> and the known leader unchanged publishes an event only in one
  situation: the state machine is leader (flag 1, known leader this host), is neither
  cooling down nor asked to release, its heartbeat of this tick was not applied or
  returned an error, and the second half of the tick confirmed it as leader: the lease
  check returned no error and either named this host with a live lease, or reported the
  lease expired and the election that followed was applied.
\<close>

theorem events_follow_changes:
  "mainLoop S h (replicate n TickerC) (le, w) =
     ((tick S h ^^ n)
        (le\<lparr>leaderFlag := 0, leader := []\<rparr>,
         w\<lparr>published := published w @ [\<lparr>Key = electKey le, Leader = False, LeaderHost = []\<rparr>]\<rparr>),
      False)
   \<and> mainLoop S h (replicate n TickerC @ CtxDone # sigs) (le, w) =
       (changeToFollower []
          ((tick S h ^^ n)
             (le\<lparr>leaderFlag := 0, leader := []\<rparr>,
              w\<lparr>published := published w @ [\<lparr>Key = electKey le, Leader = False, LeaderHost = []\<rparr>]\<rparr>)),
        True)
   \<and> changeToFollower [] (le, w) =
       (le\<lparr>leaderFlag := 0, leader := []\<rparr>,
        w\<lparr>published := published w @ [\<lparr>Key = electKey le, Leader = False, LeaderHost = []\<rparr>]\<rparr>)
   \<and> length (tick_events S h (le, w)) \<le> 1
   \<and> (leaderFlag (fst (tick S h (le, w))) \<noteq> leaderFlag le \<or> leader (fst (tick S h (le, w))) \<noteq> leader le
        \<longrightarrow> tick_events S h (le, w) =
              [\<lparr>Key = electKey le, Leader = isLeader (leaderFlag (fst (tick S h (le, w)))),
                LeaderHost = leader (fst (tick S h (le, w)))\<rparr>])
   \<and> ((\<forall>i<n. heartbeat_applies S h ((tick S h ^^ i) (le, w)))
        \<longrightarrow> published (snd ((tick S h ^^ n) (le, w))) = published w)
   \<and> (tick_events S h (le, w) \<noteq> []
        \<and> leaderFlag (fst (tick S h (le, w))) = leaderFlag le
        \<and> leader (fst (tick S h (le, w))) = leader le
        \<longrightarrow> leaderFlag le = 1 \<and> leader le = h
            \<and> \<not> 0 <s releaseTickLimit le \<and> releaseSignal le \<noteq> 1
            \<and> fst (heartbeat S h (le, w)) \<noteq> (True, None)
            \<and> confirmed_again S h (snd (heartbeat S h (le, w))))"
proof (intro conjI impI)
  show "mainLoop S h (replicate n TickerC) (le, w) =
     ((tick S h ^^ n)
        (le\<lparr>leaderFlag := 0, leader := []\<rparr>,
         w\<lparr>published := published w @ [\<lparr>Key = electKey le, Leader = False, LeaderHost = []\<rparr>]\<rparr>),
      False)"
    by (simp add: mainLoop_def mainLoop_select_ticks changeToFollower_eq)
  show "mainLoop S h (replicate n TickerC @ CtxDone # sigs) (le, w) =
       (changeToFollower []
          ((tick S h ^^ n)
             (le\<lparr>leaderFlag := 0, leader := []\<rparr>,
              w\<lparr>published := published w @ [\<lparr>Key = electKey le, Leader = False, LeaderHost = []\<rparr>]\<rparr>)),
        True)"
    by (simp add: mainLoop_def mainLoop_select_cancel changeToFollower_eq)
  show "changeToFollower [] (le, w) =
       (le\<lparr>leaderFlag := 0, leader := []\<rparr>,
        w\<lparr>published := published w @ [\<lparr>Key = electKey le, Leader = False, LeaderHost = []\<rparr>]\<rparr>)"
    by (rule changeToFollower_eq)
  show "length (tick_events S h (le, w)) \<le> 1"
    using tick_events_shape[of S h le w] by auto
  show "tick_events S h (le, w) =
              [\<lparr>Key = electKey le, Leader = isLeader (leaderFlag (fst (tick S h (le, w)))),
                LeaderHost = leader (fst (tick S h (le, w)))\<rparr>]"
    if "leaderFlag (fst (tick S h (le, w))) \<noteq> leaderFlag le \<or> leader (fst (tick S h (le, w))) \<noteq> leader le"
    using that tick_events_shape[of S h le w] by auto
  show "published (snd ((tick S h ^^ n) (le, w))) = published w"
    if "\<forall>i<n. heartbeat_applies S h ((tick S h ^^ i) (le, w))"
    using heartbeats_silent[OF that] by simp
  show "leaderFlag le = 1" "leader le = h" "\<not> 0 <s releaseTickLimit le" "releaseSignal le \<noteq> 1"
    "fst (heartbeat S h (le, w)) \<noteq> (True, None)"
    "confirmed_again S h (snd (heartbeat S h (le, w)))"
    if "tick_events S h (le, w) \<noteq> []
        \<and> leaderFlag (fst (tick S h (le, w))) = leaderFlag le
        \<and> leader (fst (tick S h (le, w))) = leader le"
    using that tick_events_repeat[of S h le w] by simp_all
qed

theorem events_follow_changes_witness:
  "tick_events leaderElectionStore ''A'' (le_follower, world_of db_expired) =
     [\<lparr>Key = ''k'', Leader = True, LeaderHost = ''A''\<rparr>]
   \<and> published (snd ((tick leaderElectionStore ''A'' ^^ 10)
        (tick leaderElectionStore ''A'' (le_follower, world_of db_expired)))) =
     [\<lparr>Key = ''k'', Leader = True, LeaderHost = ''A''\<rparr>]
   \<and> fst (heartbeat leaderElectionStore ''A'' (le_leader, world_of db_glitch)) \<noteq> (True, None)
   \<and> confirmed_again leaderElectionStore ''A''
        (snd (heartbeat leaderElectionStore ''A'' (le_leader, world_of db_glitch)))
   \<and> mainLoop leaderElectionStore ''A'' (replicate 11 TickerC) (le_follower, world_of db_expired) =
       ((tick leaderElectionStore ''A'' ^^ 11)
          (le_follower, \<lparr>store = db_expired, calls = [],
             published = [\<lparr>Key = ''k'', Leader = False, LeaderHost = []\<rparr>]\<rparr>), False)"
proof -
  let ?S = "leaderElectionStore"
  let ?w = "\<lparr>store = db_expired, calls = [], published = []\<rparr>"
  let ?c1 = "tick ?S ''A'' (le_follower, ?w)"
  have w: "world_of db_expired = ?w"
    by (simp add: world_of_def)
  have changed: "leaderFlag (fst ?c1) \<noteq> leaderFlag le_follower"
    by (simp add: acquisition) (simp add: le_follower_def)
  have first: "tick_events ?S ''A'' (le_follower, ?w) =
      [\<lparr>Key = ''k'', Leader = True, LeaderHost = ''A''\<rparr>]"
    using events_follow_changes[of ?S "''A''" 0 le_follower ?w "[]",
        THEN conjunct2, THEN conjunct2, THEN conjunct2, THEN conjunct2, THEN conjunct1] changed
    by (simp add: acquisition isLeader_def word_sless_alt) (simp add: le_follower_def)
  have run: "published (snd ((tick ?S ''A'' ^^ 10) ?c1)) = published (snd ?c1)"
    using events_follow_changes[of ?S "''A''" 10 "fst ?c1" "snd ?c1" "[]",
        THEN conjunct2, THEN conjunct2, THEN conjunct2, THEN conjunct2, THEN conjunct2,
        THEN conjunct1] ten_heartbeats[of "[]"]
    by simp
  have again: "tick_events ?S ''A'' (le_leader, world_of db_glitch) \<noteq> []"
    by (simp add: tick_events_def glitch_tick) (simp add: world_of_def)
  have same: "leaderFlag (fst (tick ?S ''A'' (le_leader, world_of db_glitch))) = leaderFlag le_leader"
    "leader (fst (tick ?S ''A'' (le_leader, world_of db_glitch))) = leader le_leader"
    by (simp_all add: glitch_tick) (simp_all add: le_leader_def)
  have rep: "fst (heartbeat ?S ''A'' (le_leader, world_of db_glitch)) \<noteq> (True, None)
      \<and> confirmed_again ?S ''A'' (snd (heartbeat ?S ''A'' (le_leader, world_of db_glitch)))"
    using events_follow_changes[of ?S "''A''" 0 le_leader "world_of db_glitch" "[]",
        THEN conjunct2, THEN conjunct2, THEN conjunct2, THEN conjunct2, THEN conjunct2,
        THEN conjunct2] again same
    by simp
  have loop: "mainLoop ?S ''A'' (replicate 11 TickerC) (le_follower, world_of db_expired) =
       ((tick ?S ''A'' ^^ 11)
          (le_follower, \<lparr>store = db_expired, calls = [],
             published = [\<lparr>Key = ''k'', Leader = False, LeaderHost = []\<rparr>]\<rparr>), False)"
    using events_follow_changes[of ?S "''A''" 11 le_follower "world_of db_expired" "[]",
        THEN conjunct1]
    by (simp add: le_follower_def world_of_def del: funpow.simps)
  show ?thesis
    unfolding w using first run rep loop[unfolded w] by (simp add: acquisition del: funpow.simps)
qed

section \<open>Properties of the registry\<close>

text \<open>
  C8. For a key with no state machine in \<^verbatim>\<open>leMap\<close>, \<^verbatim>\<open>IsLeader\<close> is false and
  \<^verbatim>\<open>ReleaseLeaderElection\<close> returns the error \<open>NotStarted key\<close> and changes nothing.
  For a key with state machine \<open>le\<close>, \<^verbatim>\<open>IsLeader\<close> is \<^verbatim>\<open>isLeader\<close> of its
  \<^verbatim>\<open>leaderFlag\<close> and \<^verbatim>\<open>ReleaseLeaderElection\<close> returns \<^verbatim>\<open>nil\<close> after setting its
  release signal to 1. Both are functions of the registry alone: neither takes or returns
  a store state.
\<close>

theorem untracked_key_queries:
  "(leMap m key = None \<longrightarrow>
      \<not> IsLeader m key \<and> ReleaseLeaderElection m key = (Some (NotStarted key), m))
   \<and> (leMap m key = Some le \<longrightarrow>
      IsLeader m key = isLeader (leaderFlag le)
      \<and> ReleaseLeaderElection m key =
          (None, m\<lparr>leMap := (leMap m)(key \<mapsto> le\<lparr>releaseSignal := 1\<rparr>)\<rparr>))"
  by (simp add: IsLeader_def ReleaseLeaderElection_def isLeaderAtomic_def setReleaseSignal_def)

theorem untracked_key_queries_witness:
  "\<not> IsLeader admin_k ''z''
   \<and> ReleaseLeaderElection admin_k ''z'' = (Some (NotStarted ''z''), admin_k)
   \<and> IsLeader admin_k ''k''
   \<and> ReleaseLeaderElection admin_k ''k'' =
       (None, \<lparr>leMap = [''k'' \<mapsto> le_leader\<lparr>releaseSignal := 1\<rparr>]\<rparr>)"
  using untracked_key_queries[of admin_k "''z''" le_leader]
    untracked_key_queries[of admin_k "''k''" le_leader]
  by (simp add: admin_k_def le_leader_def isLeader_def word_sless_alt)

end
